theory Spec2Isabelle
  imports Complex_Main
begin

section \<open>mysql-data-generator: the size-bounded insertion controller\<close>

text \<open>
  The repository holds several snapshots of one Go program (\<^verbatim>\<open>package main\<close>):
  \<^item> \<^verbatim>\<open>src/unnamed/part_000\<close>: the oldest variant (sizes counted in KB, \<^verbatim>\<open>parseSize\<close> by
    slicing the last two characters, the unit not checked);
  \<^item> \<^verbatim>\<open>src/main.go\<close>: the table-per-worker variant (a buffered channel as semaphore,
    \<^verbatim>\<open>parseSize\<close> by slicing the last two characters);
  \<^item> \<^verbatim>\<open>src/unnamed/part_001\<close>, first file: the row-per-worker variant (semaphore,
    retry loop around \<^verbatim>\<open>insertRow\<close>, \<^verbatim>\<open>parseSize\<close> by slicing);
  \<^item> \<^verbatim>\<open>src/unnamed/part_001\<close>, second file: the worker-pool variant (persistent workers
    running \<^verbatim>\<open>insertRows\<close>, \<^verbatim>\<open>monitorProgress\<close>, \<^verbatim>\<open>parseSize\<close> by \<^verbatim>\<open>fmt.Sscanf\<close>).
  Go's \<^verbatim>\<open>int\<close> is taken as the 64-bit two's complement integer of the platforms the
  program is built for; a Go \<^verbatim>\<open>string\<close> is a byte sequence, here a \<^typ>\<open>string\<close>.
\<close>

subsection \<open>Errors and panics\<close>

text \<open>
  A returned \<^verbatim>\<open>error\<close> and a run-time panic are both values of one type; the panics are
  the constructors \<open>PanicSliceBounds\<close> (slice bounds out of range),
  \<open>PanicDivideByZero\<close> (integer divide by zero) and \<open>PanicMakeChan\<close> (\<^verbatim>\<open>make\<close> of a
  channel with a negative size).
\<close>

datatype error =
    ErrSyntax              \<comment> \<open>\<^verbatim>\<open>strconv.ErrSyntax\<close>, wrapped in a \<^verbatim>\<open>*NumError\<close>\<close>
  | ErrRange               \<comment> \<open>\<^verbatim>\<open>strconv.ErrRange\<close>\<close>
  | ErrUnit string         \<comment> \<open>\<^verbatim>\<open>fmt.Errorf("expected data unit to one of (...). Found: %s", unit)\<close>\<close>
  | ErrEOF                 \<comment> \<open>\<^verbatim>\<open>fmt.Sscanf\<close> ran out of input (\<^verbatim>\<open>io.EOF\<close>, \<^verbatim>\<open>io.ErrUnexpectedEOF\<close>)\<close>
  | ErrScan string         \<comment> \<open>another error of \<^verbatim>\<open>fmt.Sscanf\<close>, with its message\<close>
  | ErrDb string           \<comment> \<open>an error returned by the database driver, with its message\<close>
  | PanicSliceBounds
  | PanicDivideByZero
  | PanicMakeChan

fun is_panic :: "error \<Rightarrow> bool" where
  "is_panic PanicSliceBounds = True"
| "is_panic PanicDivideByZero = True"
| "is_panic PanicMakeChan = True"
| "is_panic _ = False"

subsection \<open>64-bit integers\<close>

definition wrap64 :: "int \<Rightarrow> int" where
  \<comment> \<open>the value a 64-bit signed register holds after an arithmetic result \<open>x\<close>\<close>
  "wrap64 x = (x + 2 ^ 63) mod 2 ^ 64 - 2 ^ 63"

definition in_int64 :: "int \<Rightarrow> bool" where
  "in_int64 x \<longleftrightarrow> - (2 ^ 63) \<le> x \<and> x < 2 ^ 63"

definition quot :: "int \<Rightarrow> int \<Rightarrow> int" where
  \<comment> \<open>Go's \<^verbatim>\<open>/\<close> on integers truncates towards zero\<close>
  "quot a b = sgn a * sgn b * (\<bar>a\<bar> div \<bar>b\<bar>)"

subsection \<open>Strings\<close>

definition is_digit :: "char \<Rightarrow> bool" where
  "is_digit c \<longleftrightarrow> c \<in> set ''0123456789''"

definition digit_val :: "char \<Rightarrow> int" where
  \<comment> \<open>the position of a decimal digit in \<^verbatim>\<open>0123456789\<close>\<close>
  "digit_val c = int (length (takeWhile (\<lambda>d. d \<noteq> c) ''0123456789''))"

definition digit_char :: "nat \<Rightarrow> char" where
  "digit_char d = ''0123456789'' ! (d mod 10)"

fun dec_value :: "int \<Rightarrow> string \<Rightarrow> int" where
  \<comment> \<open>the number a run of decimal digits denotes, most significant digit first\<close>
  "dec_value acc [] = acc"
| "dec_value acc (c # cs) = dec_value (acc * 10 + digit_val c) cs"

fun show_nat :: "nat \<Rightarrow> string" where
  \<comment> \<open>\<^verbatim>\<open>%d\<close> of a non-negative integer\<close>
  "show_nat n = (if n < 10 then [digit_char n] else show_nat (n div 10) @ [digit_char (n mod 10)])"

declare show_nat.simps [simp del]

definition show_int :: "int \<Rightarrow> string" where
  "show_int i = (if i < 0 then CHR ''-'' # show_nat (nat (- i)) else show_nat (nat i))"

definition has_prefix :: "string \<Rightarrow> string \<Rightarrow> bool" where
  \<comment> \<open>\<^verbatim>\<open>strings.HasPrefix(s, p)\<close>\<close>
  "has_prefix s p \<longleftrightarrow> take (length p) s = p"

fun contains :: "string \<Rightarrow> string \<Rightarrow> bool" where
  \<comment> \<open>\<^verbatim>\<open>strings.Contains(s, sub)\<close>\<close>
  "contains [] sub = (sub = [])"
| "contains (c # cs) sub = (has_prefix (c # cs) sub \<or> contains cs sub)"

fun join :: "string list \<Rightarrow> string \<Rightarrow> string" where
  \<comment> \<open>\<^verbatim>\<open>strings.Join(elems, sep)\<close>\<close>
  "join [] sep = []"
| "join [x] sep = x"
| "join (x # y # zs) sep = x @ sep @ join (y # zs) sep"

definition quoted :: "string \<Rightarrow> string" where
  \<comment> \<open>\<^verbatim>\<open>%q\<close> of a string of printable ASCII characters without quote or backslash,
      as database and table names are: the text between double quotes\<close>
  "quoted s = [CHR 0x22] @ s @ [CHR 0x22]"

subsection \<open>\<^verbatim>\<open>strconv.Atoi\<close>\<close>

text \<open>
  The standard library's \<^verbatim>\<open>strconv.Atoi\<close> for the 64-bit \<^verbatim>\<open>int\<close>. An empty text, and a
  text that is only a sign, is a syntax error. After an optional sign the bytes are read
  from the left into an unsigned 64-bit number (the loop of \<^verbatim>\<open>strconv.ParseUint\<close>): a byte
  that is not a decimal digit ends the loop with \<^verbatim>\<open>ErrSyntax\<close>, and a digit with which the
  number no longer fits 64 bits ends it with \<^verbatim>\<open>ErrRange\<close>, whatever follows. At the end the
  signed number must fit the \<^verbatim>\<open>int\<close>, or the error is \<^verbatim>\<open>ErrRange\<close>.
\<close>

fun scan_uint :: "int \<Rightarrow> string \<Rightarrow> error + int" where
  "scan_uint n [] = Inr n"
| "scan_uint n (c # cs) =
     (if \<not> is_digit c then Inl ErrSyntax
      else if 2 ^ 64 \<le> n * 10 + digit_val c then Inl ErrRange
      else scan_uint (n * 10 + digit_val c) cs)"

definition Atoi :: "string \<Rightarrow> error + int" where
  "Atoi s =
     (let neg = (s \<noteq> [] \<and> hd s = CHR ''-'');
          body = (if s \<noteq> [] \<and> (hd s = CHR ''-'' \<or> hd s = CHR ''+'') then tl s else s)
      in if body = [] then Inl ErrSyntax
         else case scan_uint 0 body of
                Inl err \<Rightarrow> Inl err
              | Inr un \<Rightarrow>
                  let n = (if neg then - un else un)
                  in if in_int64 n then Inr n else Inl ErrRange)"

subsection \<open>\<^verbatim>\<open>parseSize\<close>, the variants that slice the last two characters\<close>

text \<open>
  \<^verbatim>\<open>src/main.go\<close> lines 339-355, and the same text in the first file of
  \<^verbatim>\<open>src/unnamed/part_001\<close> (lines 410-426):
  \<^verbatim>\<open>
  dataUnit := opt.size[len(opt.size)-2:]
  unitCount, err := strconv.Atoi(opt.size[0 : len(opt.size)-2])
  if err != nil { return 0, err }
  switch dataUnit {
  case "KB": return unitCount * 1024, nil
  case "MB": return unitCount * 1024 * 1024, nil
  case "GB": return unitCount * 1024 * 1024 * 1024, nil
  default:   return 0, fmt.Errorf("expected data unit to one of (KB, MB, GB). Found: %s", dataUnit)
  }
  \<close>
  Slicing at \<^verbatim>\<open>len-2\<close> panics when the string has fewer than two bytes. The products
  are 64-bit and wrap around.
\<close>

definition mul64 :: "int \<Rightarrow> int \<Rightarrow> int" where
  "mul64 a b = wrap64 (a * b)"

definition parseSize :: "string \<Rightarrow> error + int" where
  "parseSize sz =
     (if length sz < 2 then Inl PanicSliceBounds
      else
        let dataUnit = drop (length sz - 2) sz in
        case Atoi (take (length sz - 2) sz) of
          Inl err \<Rightarrow> Inl err
        | Inr unitCount \<Rightarrow>
            if dataUnit = ''KB'' then Inr (mul64 unitCount 1024)
            else if dataUnit = ''MB'' then Inr (mul64 (mul64 unitCount 1024) 1024)
            else if dataUnit = ''GB'' then Inr (mul64 (mul64 (mul64 unitCount 1024) 1024) 1024)
            else Inl (ErrUnit dataUnit))"

subsection \<open>Rounding to the nearest, ties to even\<close>

text \<open>
  Conversions between integers, decimals and float64 round to the nearest value, a tie
  going to the even neighbour. \<open>bit_length n\<close> is the number of binary digits of \<open>n\<close>.
\<close>

fun bit_length :: "nat \<Rightarrow> nat" where
  "bit_length n = (if n = 0 then 0 else Suc (bit_length (n div 2)))"

declare bit_length.simps [simp del]

definition round_half_even :: "nat \<Rightarrow> nat \<Rightarrow> nat" where
  \<comment> \<open>\<open>a / d\<close> rounded to the nearest integer, a tie to the even one\<close>
  "round_half_even a d =
     (let q = a div d; r = a mod d
      in if d < 2 * r \<or> (2 * r = d \<and> odd q) then q + 1 else q)"

subsection \<open>\<^verbatim>\<open>parseSize\<close>, the oldest variant\<close>



subsection \<open>\<^verbatim>\<open>parseSize\<close>, the variant that scans\<close>






subsection \<open>What \<^verbatim>\<open>fmt.Sscanf(s, "%f%s", ...)\<close> does on plain texts\<close>
















text \<open>
  The binary unit factors in the specification's words: 1 for B, 1024 for KB,
  \<open>1024\<^sup>2\<close> for MB, \<open>1024\<^sup>3\<close> for GB.
\<close>

definition unit_factor :: "string \<Rightarrow> int" where
  "unit_factor u =
     (if u = ''B'' then 1 else if u = ''KB'' then 1024
      else if u = ''MB'' then 1024 ^ 2 else 1024 ^ 3)"

subsection \<open>\<^verbatim>\<open>formatSize\<close>\<close>

text \<open>
  \<^verbatim>\<open>src/main.go\<close> lines 316-327 (the same text in both files of \<^verbatim>\<open>part_001\<close>):
  \<^verbatim>\<open>
  switch {
  case size <= OneKB: return fmt.Sprintf("%.3f B", float64(size))
  case size <= OneMB: return fmt.Sprintf("%.3f KB", float64(size)/OneKB)
  case size <= OneGB: return fmt.Sprintf("%.3f MB", float64(size)/OneMB)
  default:            return fmt.Sprintf("%.3f GB", float64(size)/OneGB)
  }
  \<close>
  All of it is integer arithmetic in disguise. \<^verbatim>\<open>float64(size)\<close> is the integer
  rounded to 53 significant bits (nearest, ties to even), again an integer; dividing it by
  a power of two is exact; and \<^verbatim>\<open>%.3f\<close> prints the nearest multiple of one thousandth of
  that exact quotient, ties to even.
\<close>

definition OneKB :: int where "OneKB = 1024"
definition OneMB :: int where "OneMB = 1024 * 1024"
definition OneGB :: int where "OneGB = 1024 * 1024 * 1024"

definition float64_of_int :: "int \<Rightarrow> int" where
  \<comment> \<open>the value of \<^verbatim>\<open>float64(size)\<close>: exact below \<open>2\<^sup>5\<^sup>3\<close>, else rounded to 53 bits\<close>
  "float64_of_int n =
     (let a = nat \<bar>n\<bar> in
      if a < 2 ^ 53 then n
      else let e = bit_length a - 53
           in sgn n * int (round_half_even a (2 ^ e) * 2 ^ e))"

definition pad3 :: "nat \<Rightarrow> string" where
  "pad3 f = [digit_char (f div 100), digit_char (f div 10), digit_char f]"

definition fmt_f3 :: "int \<Rightarrow> nat \<Rightarrow> string" where
  \<comment> \<open>\<^verbatim>\<open>%.3f\<close> of the float64 whose value is \<open>m / 2 ^ k\<close>\<close>
  "fmt_f3 m k =
     (let t = round_half_even (nat \<bar>m\<bar> * 1000) (2 ^ k)
      in (if m < 0 then ''-'' else []) @ show_nat (t div 1000) @ ''.'' @ pad3 (t mod 1000))"

definition formatSize :: "int \<Rightarrow> string" where
  "formatSize sz =
     (if sz \<le> OneKB then fmt_f3 (float64_of_int sz) 0 @ '' B''
      else if sz \<le> OneMB then fmt_f3 (float64_of_int sz) 10 @ '' KB''
      else if sz \<le> OneGB then fmt_f3 (float64_of_int sz) 20 @ '' MB''
      else fmt_f3 (float64_of_int sz) 30 @ '' GB'')"

text \<open>
  The unit rule in the specification's words: B when \<open>n \<le> 1024\<close>, KB when
  \<open>1024 < n \<le> 1024\<^sup>2\<close>, MB when \<open>1024\<^sup>2 < n \<le> 1024\<^sup>3\<close>, GB otherwise.
\<close>

definition display_unit :: "int \<Rightarrow> string" where
  "display_unit n =
     (if n \<le> 1024 then ''B''
      else if 1024 < n \<and> n \<le> 1024 ^ 2 then ''KB''
      else if 1024 ^ 2 < n \<and> n \<le> 1024 ^ 3 then ''MB''
      else ''GB'')"

definition three_decimals :: "string \<Rightarrow> bool" where
  \<comment> \<open>one or more digits, a point, exactly three digits\<close>
  "three_decimals t \<longleftrightarrow>
     5 \<le> length t \<and> list_all is_digit (take (length t - 4) t) \<and>
     t ! (length t - 4) = CHR ''.'' \<and> list_all is_digit (drop (length t - 3) t)"

definition thousandths :: "string \<Rightarrow> int" where
  \<comment> \<open>the number of thousandths a magnitude with three decimals denotes: its digits read
      as one number\<close>
  "thousandths t = dec_value 0 (filter (\<lambda>c. c \<noteq> CHR ''.'') t)"

subsection \<open>The end-of-run summary\<close>

text \<open>
  The last line of the summary, in the row-per-worker variant (first file of
  \<^verbatim>\<open>src/unnamed/part_001\<close>, lines 152-162) and in the worker-pool variant (second file,
  lines 564-573):
  \<^verbatim>\<open>
  totalTime := time.Since(startingTime)
  curSize, err := opt.getDatabaseSize()
  ...
  fmt.Printf("%35s: %s/s\n", "Speed", formatSize((curSize-initialSize)/int(totalTime.Seconds())))
  \<close>
  A \<^verbatim>\<open>time.Duration\<close> is a number of nanoseconds. \<^verbatim>\<open>int(totalTime.Seconds())\<close> is its
  number of whole seconds (exactly so for every run shorter than a hundred days, where
  the float64 of \<^verbatim>\<open>Seconds\<close> cannot round up to the next second). Integer division by
  zero is a run-time panic in Go.
\<close>

definition whole_seconds :: "int \<Rightarrow> int" where
  "whole_seconds totalTime = quot totalTime 1000000000"

definition rjust :: "nat \<Rightarrow> string \<Rightarrow> string" where
  \<comment> \<open>\<^verbatim>\<open>%35s\<close>: padded with spaces on the left\<close>
  "rjust w s = replicate (w - length s) (CHR '' '') @ s"

definition speedLine :: "int \<Rightarrow> int \<Rightarrow> int \<Rightarrow> error + string" where
  "speedLine curSize initialSize totalTime =
     (let seconds = whole_seconds totalTime in
      if seconds = 0 then Inl PanicDivideByZero
      else Inr (rjust 35 ''Speed'' @ '': '' @
                formatSize (wrap64 (quot (wrap64 (curSize - initialSize)) seconds)) @ ''/s''))"

definition totalRows :: "int \<Rightarrow> int \<Rightarrow> error + int" where
  \<comment> \<open>row-per-worker variant, line 94:
      \<^verbatim>\<open>totalRows := desiredAmount / (opt.tableNumber * 1024 * 1024)\<close>\<close>
  "totalRows desiredAmount tableNumber =
     (let d = mul64 (mul64 tableNumber 1024) 1024 in
      if d = 0 then Inl PanicDivideByZero else Inr (wrap64 (quot desiredAmount d)))"

subsection \<open>One worker of the row-per-worker variant\<close>

text \<open>
  First file of \<^verbatim>\<open>src/unnamed/part_001\<close>, lines 118-144, the goroutine started for each
  row:
  \<^verbatim>\<open>
  tableName := fmt.Sprintf("table%d", (rand.Int()%opt.tableNumber)+1)
  for try := 0; try < 100; try++ {
      err := opt.insertRow(tableName)
      // only retry if too many connection
      if err != nil && strings.Contains(err.Error(), "Too many connections") {
          time.Sleep(5 * time.Second)
          continue
      }
      break
  }
  ...
  <-workerLimiter // worker has done it's work. so release the seat.
  if err != nil {
      fmt.Printf("Failed to insert a row in table: %q. Reason: %v.\n", tableName, err)
  }
  \<close>
  The database's answers are an oracle: \<open>insertRow k\<close> is the error (\<open>None\<close> for
  \<^verbatim>\<open>nil\<close>) of the call made with \<^verbatim>\<open>try == k\<close> (the loop counter is \<open>tryno\<close> here). The loop returns the number of calls made,
  the seconds slept, and the error of the last call.
\<close>

function insertWithRetry ::
  "(nat \<Rightarrow> string option) \<Rightarrow> nat \<Rightarrow> nat \<Rightarrow> string option \<Rightarrow> nat \<times> nat \<times> string option"
where
  "insertWithRetry insertRow tryno slept prev =
     (if tryno < 100 then
        (case insertRow tryno of
           None \<Rightarrow> (tryno + 1, slept, None)
         | Some msg \<Rightarrow>
             if contains msg ''Too many connections''
             then insertWithRetry insertRow (tryno + 1) (slept + 5) (Some msg)
             else (tryno + 1, slept, Some msg))
      else (tryno, slept, prev))"
  by pat_completeness auto
termination
  by (relation "measure (\<lambda>(insertRow, tryno, slept, prev). 100 - tryno)") auto

declare insertWithRetry.simps [simp del]

definition too_many_connections :: "string option \<Rightarrow> bool" where
  "too_many_connections err \<longleftrightarrow>
     (case err of None \<Rightarrow> False | Some msg \<Rightarrow> contains msg ''Too many connections'')"

text \<open>
  The \<^verbatim>\<open>err\<close> declared in the loop body lives in that body only. The \<^verbatim>\<open>err\<close> tested
  after the loop is the variable of \<^verbatim>\<open>generateData\<close> that the closure captures, here the
  parameter \<open>err\<close>; the worker prints with that one.
\<close>

definition worker :: "string option \<Rightarrow> string \<Rightarrow> (nat \<Rightarrow> string option) \<Rightarrow> nat \<times> nat \<times> string list"
where
  "worker err tableName insertRow =
     (case insertWithRetry insertRow 0 0 None of
        (calls, slept, loop_err) \<Rightarrow>
          (calls, slept,
           case err of
             None \<Rightarrow> []
           | Some reason \<Rightarrow>
               [''Failed to insert a row in table: '' @ quoted tableName @
                ''. Reason: '' @ reason @ ''.'']))"

text \<open>
  \<^verbatim>\<open>generateData\<close> starts the workers after \<^verbatim>\<open>initialSize, err := opt.getDatabaseSize()\<close>
  and \<^verbatim>\<open>if err != nil { return err }\<close> (lines 100-103), and assigns \<^verbatim>\<open>err\<close> again only
  after \<^verbatim>\<open>wg.Wait()\<close> (line 153): while a worker runs, the captured \<^verbatim>\<open>err\<close> is \<^verbatim>\<open>nil\<close>.
\<close>

definition spawned_worker :: "string \<Rightarrow> (nat \<Rightarrow> string option) \<Rightarrow> nat \<times> nat \<times> string list" where
  "spawned_worker tableName insertRow = worker None tableName insertRow"

subsection \<open>One worker of the worker-pool variant\<close>

text \<open>
  Second file of \<^verbatim>\<open>src/unnamed/part_001\<close>, lines 618-643:
  \<^verbatim>\<open>
  for {
      select {
      case <-ctx.Done():
          return nil
      default:
          tableName := fmt.Sprintf("table%d", rand.Int()%opt.tableNumber)
          statement := fmt.Sprintf("INSERT INTO %s ...", tableName, ...)
          _, err := db.Exec(statement)
          if err != nil {
              fmt.Printf("Failed to insert row into table: %s. Reason: %v.\n", tableName, err)
          }
      }
  }
  \<close>
  What the loop meets is an oracle, one entry per pass: the context is done, or the
  default branch runs with the table drawn and the error of \<^verbatim>\<open>db.Exec\<close>. The loop has
  no bound of its own; the model returns the lines printed and whether the worker has
  returned within the passes given.
\<close>

datatype pass = CtxDone | Insert nat "string option"

fun insertRows :: "pass list \<Rightarrow> string list \<times> bool" where
  "insertRows [] = ([], False)"
| "insertRows (CtxDone # rest) = ([], True)"
| "insertRows (Insert t None # rest) = insertRows rest"
| "insertRows (Insert t (Some reason) # rest) =
     (case insertRows rest of
        (printed, returned) \<Rightarrow>
          ((''Failed to insert row into table: table'' @ show_nat t @
            ''. Reason: '' @ reason @ ''.'') # printed, returned))"

fun failures :: "pass list \<Rightarrow> nat" where
  \<comment> \<open>the failed inserts among the passes before the context is done\<close>
  "failures [] = 0"
| "failures (CtxDone # rest) = 0"
| "failures (Insert t None # rest) = failures rest"
| "failures (Insert t (Some reason) # rest) = Suc (failures rest)"

subsection \<open>Options and the database\<close>

text \<open>
  \<^verbatim>\<open>GeneratorOptions\<close> with the fields of all variants (\<^verbatim>\<open>size\<close> is \<open>size_str\<close> here;
  \<^verbatim>\<open>src/main.go\<close> has no \<^verbatim>\<open>overwrite\<close>, the files of \<^verbatim>\<open>part_001\<close> do not use
  \<^verbatim>\<open>columnNumber\<close> and \<^verbatim>\<open>rowNumber\<close>).
\<close>

record GeneratorOptions =
  size_str :: string
  host :: string
  port :: int
  user :: string
  password :: string
  concurrency :: int
  dbName :: string
  tableNumber :: int
  columnNumber :: int
  rowNumber :: int
  overwrite :: bool

text \<open>
  The server is outside the program. It is an oracle that answers each call of the
  \<^verbatim>\<open>database/sql\<close> handle, given the calls made so far (so its answers may depend on what
  was created or inserted before): the error of \<^verbatim>\<open>sql.Open\<close>, of \<^verbatim>\<open>Ping\<close> and of \<^verbatim>\<open>Exec\<close>
  (\<open>None\<close> is \<^verbatim>\<open>nil\<close>), and the error or the rows of \<^verbatim>\<open>Query\<close>. A row of the size query
  is the pair of its two columns as \<^verbatim>\<open>sql.RawBytes\<close>, \<open>None\<close> for SQL NULL. The calls
  are recorded in order; closing a handle is not recorded.
\<close>

datatype db_call = Open string | Ping | Exec string | Query string

type_synonym row = "string option \<times> string option"

record database =
  open_err :: "db_call list \<Rightarrow> string \<Rightarrow> string option"
  ping_err :: "db_call list \<Rightarrow> string option"
  exec_err :: "db_call list \<Rightarrow> string \<Rightarrow> string option"
  query_res :: "db_call list \<Rightarrow> string \<Rightarrow> string + row list"

definition dsn :: "GeneratorOptions \<Rightarrow> string \<Rightarrow> string" where
  \<comment> \<open>\<^verbatim>\<open>fmt.Sprintf("%v:%v@tcp(%v:%v)/%v", opt.user, opt.password, opt.host, opt.port, database)\<close>\<close>
  "dsn opt database =
     user opt @ '':'' @ password opt @ ''@tcp('' @ host opt @ '':'' @ show_int (port opt) @
     '')/'' @ database"

definition getClient ::
  "GeneratorOptions \<Rightarrow> database \<Rightarrow> string \<Rightarrow> db_call list \<Rightarrow> db_call list \<times> string option" where
  "getClient opt db database tr = (tr @ [Open (dsn opt database)], open_err db tr (dsn opt database))"

subsection \<open>\<^verbatim>\<open>ensureDatabase\<close>\<close>

text \<open>
  \<^verbatim>\<open>src/main.go\<close> lines 123-148: open a handle on the \<^verbatim>\<open>mysql\<close> schema, ping, create
  the database, and take "database exists" for success.
\<close>

definition create_database :: "GeneratorOptions \<Rightarrow> database \<Rightarrow> db_call list \<Rightarrow> db_call list \<times> error option"
where
  "create_database opt db tr =
     (let stmt = ''CREATE DATABASE '' @ dbName opt @ '';'' in
      case exec_err db tr stmt of
        None \<Rightarrow> (tr @ [Exec stmt], None)
      | Some msg \<Rightarrow>
          if contains msg ''database exists'' then (tr @ [Exec stmt], None)
          else (tr @ [Exec stmt], Some (ErrDb msg)))"

definition ensureDatabase_main ::
  "GeneratorOptions \<Rightarrow> database \<Rightarrow> db_call list \<Rightarrow> db_call list \<times> error option" where
  "ensureDatabase_main opt db tr =
     (case getClient opt db ''mysql'' tr of
        (tr1, Some msg) \<Rightarrow> (tr1, Some (ErrDb msg))
      | (tr1, None) \<Rightarrow>
          (case ping_err db tr1 of
             Some msg \<Rightarrow> (tr1 @ [Ping], Some (ErrDb msg))
           | None \<Rightarrow> create_database opt db (tr1 @ [Ping])))"

text \<open>
  Second file of \<^verbatim>\<open>src/unnamed/part_001\<close>, lines 579-616: the same, and with
  \<^verbatim>\<open>overwrite\<close> the database is dropped before it is created.
\<close>

definition ensureDatabase_pool ::
  "GeneratorOptions \<Rightarrow> database \<Rightarrow> db_call list \<Rightarrow> db_call list \<times> error option" where
  "ensureDatabase_pool opt db tr =
     (case getClient opt db ''mysql'' tr of
        (tr1, Some msg) \<Rightarrow> (tr1, Some (ErrDb msg))
      | (tr1, None) \<Rightarrow>
          (case ping_err db tr1 of
             Some msg \<Rightarrow> (tr1 @ [Ping], Some (ErrDb msg))
           | None \<Rightarrow>
               if overwrite opt then
                 (let stmt = ''DROP DATABASE IF EXISTS '' @ dbName opt @ '';'' in
                  case exec_err db (tr1 @ [Ping]) stmt of
                    Some msg \<Rightarrow> (tr1 @ [Ping, Exec stmt], Some (ErrDb msg))
                  | None \<Rightarrow> create_database opt db (tr1 @ [Ping, Exec stmt]))
               else create_database opt db (tr1 @ [Ping])))"

subsection \<open>\<^verbatim>\<open>getDatabaseSize\<close>\<close>

definition select_size :: "GeneratorOptions \<Rightarrow> string" where
  "select_size opt =
     ''SELECT table_schema, round(SUM(data_length + index_length)) FROM information_schema.TABLES WHERE table_schema = ''
     @ quoted (dbName opt) @ '';''"

fun scan_rows :: "row list \<Rightarrow> error + int" where
  \<comment> \<open>\<^verbatim>\<open>for rows.Next() { rows.Scan(&dbname, &size); if size != nil { ... return } }; return 0, nil\<close>\<close>
  "scan_rows [] = Inr 0"
| "scan_rows ((dbname, None) # rest) = scan_rows rest"
| "scan_rows ((dbname, Some sz) # rest) = Atoi sz"

text \<open>
  \<^verbatim>\<open>src/main.go\<close> lines 275-305: a handle on the target database, the size query, the
  first row whose size is not NULL.
\<close>

definition getDatabaseSize_main ::
  "GeneratorOptions \<Rightarrow> database \<Rightarrow> db_call list \<Rightarrow> db_call list \<times> (error + int)" where
  "getDatabaseSize_main opt db tr =
     (case getClient opt db (dbName opt) tr of
        (tr1, Some msg) \<Rightarrow> (tr1, Inl (ErrDb msg))
      | (tr1, None) \<Rightarrow>
          (case query_res db tr1 (select_size opt) of
             Inl msg \<Rightarrow> (tr1 @ [Query (select_size opt)], Inl (ErrDb msg))
           | Inr rows \<Rightarrow> (tr1 @ [Query (select_size opt)], scan_rows rows)))"

text \<open>
  Second file of \<^verbatim>\<open>src/unnamed/part_001\<close>, lines 719-759, on the global handle:
  \<^verbatim>\<open>
  // make sure the table statistics has been updated
  tables := make([]string, 0)
  for i := 0; i < opt.tableNumber; i++ { tables = append(tables, fmt.Sprintf("table%d", i)) }
  _, err := db.Query(fmt.Sprintf("CHECK TABLE %s;", strings.Join(tables, ",")))
  if err != nil { return 0, err }
  _, err = db.Query(fmt.Sprintf("ANALYZE TABLE %s;", strings.Join(tables, ",")))
  if err != nil { return 0, err }
  statement := fmt.Sprintf("SELECT ... WHERE table_schema = %q;", opt.dbName)
  rows, err := db.Query(statement)
  ...
  \<close>
\<close>

definition table_names :: "GeneratorOptions \<Rightarrow> string list" where
  "table_names opt = map (\<lambda>i. ''table'' @ show_nat i) [0..<nat (tableNumber opt)]"

definition check_tables :: "GeneratorOptions \<Rightarrow> string" where
  "check_tables opt = ''CHECK TABLE '' @ join (table_names opt) '','' @ '';''"

definition analyze_tables :: "GeneratorOptions \<Rightarrow> string" where
  "analyze_tables opt = ''ANALYZE TABLE '' @ join (table_names opt) '','' @ '';''"

definition getDatabaseSize_pool ::
  "GeneratorOptions \<Rightarrow> database \<Rightarrow> db_call list \<Rightarrow> db_call list \<times> (error + int)" where
  "getDatabaseSize_pool opt db tr =
     (case query_res db tr (check_tables opt) of
        Inl msg \<Rightarrow> (tr @ [Query (check_tables opt)], Inl (ErrDb msg))
      | Inr checked \<Rightarrow>
          (case query_res db (tr @ [Query (check_tables opt)]) (analyze_tables opt) of
             Inl msg \<Rightarrow>
               (tr @ [Query (check_tables opt), Query (analyze_tables opt)], Inl (ErrDb msg))
           | Inr analyzed \<Rightarrow>
               (case query_res db (tr @ [Query (check_tables opt), Query (analyze_tables opt)])
                       (select_size opt) of
                  Inl msg \<Rightarrow>
                    (tr @ [Query (check_tables opt), Query (analyze_tables opt),
                           Query (select_size opt)], Inl (ErrDb msg))
                | Inr rows \<Rightarrow>
                    (tr @ [Query (check_tables opt), Query (analyze_tables opt),
                           Query (select_size opt)], scan_rows rows))))"

subsection \<open>The start of \<^verbatim>\<open>generateData\<close>\<close>


text \<open>
  Second file of \<^verbatim>\<open>src/unnamed/part_001\<close>, lines 495-534: the database, the global
  handle, one \<^verbatim>\<open>CREATE TABLE\<close> per table ("already exists" is tolerated), and only then
  \<^verbatim>\<open>parseSize\<close> and the first size probe.
\<close>

definition create_table_stmt :: "string \<Rightarrow> string" where
  "create_table_stmt tableName =
     ''CREATE TABLE '' @ tableName @
     '' (id int NOT NULL AUTO_INCREMENT PRIMARY KEY,name text, height int, weight int, age int,description Text)''"




text \<open>The calls that set the schema up, as opposed to probes and inserts.\<close>

definition is_provisioning :: "db_call \<Rightarrow> bool" where
  "is_provisioning c =
     (case c of
        Open d \<Rightarrow> True
      | Ping \<Rightarrow> True
      | Exec stmt \<Rightarrow> has_prefix stmt ''CREATE '' \<or> has_prefix stmt ''DROP DATABASE ''
      | Query stmt \<Rightarrow> False)"

text \<open>Examples: the default options of \<^verbatim>\<open>src/main.go\<close>; a server that accepts
  every call and reports a schema of 16384 bytes; one that cannot be reached; and one
  whose schema has no table yet, so that the sum of the size query is NULL.\<close>

definition default_options :: GeneratorOptions where
  "default_options =
     \<lparr> size_str = ''128MB'', host = ''localhost'', port = 3306, user = ''root'',
       password = ''admin123'', concurrency = 1, dbName = ''demodata'', tableNumber = 1,
       columnNumber = 2, rowNumber = 1, overwrite = False \<rparr>"

definition quiet_server :: database where
  "quiet_server =
     \<lparr> open_err = (\<lambda>tr d. None), ping_err = (\<lambda>tr. None), exec_err = (\<lambda>tr stmt. None),
       query_res = (\<lambda>tr stmt. Inr [(Some ''demodata'', Some ''16384'')]) \<rparr>"


definition fresh_server :: database where
  "fresh_server =
     \<lparr> open_err = (\<lambda>tr d. None), ping_err = (\<lambda>tr. None), exec_err = (\<lambda>tr stmt. None),
       query_res = (\<lambda>tr stmt. Inr [(None, None)]) \<rparr>"

subsection \<open>The tasks of a run, interleaved\<close>

text \<open>
  Goroutines are modelled as tasks whose steps interleave: a state records where the
  main routine and each worker stand, and one step is one action of one task. The
  buffered channel \<^verbatim>\<open>workerLimiter\<close> of capacity \<^verbatim>\<open>opt.concurrency\<close> is the number of
  values it holds: a send needs room, a receive needs a value.

  Row-per-worker variant (first file of \<^verbatim>\<open>src/unnamed/part_001\<close>, lines 97-145):
  \<^verbatim>\<open>
  workerLimiter := make(chan struct{}, opt.concurrency)
  ...
  for i := 0; i < totalRows; i++ {
      workerLimiter <- struct{}{} // stuck if already maximum number of workers are already running
      wg.Add(1)
      go func() {
          defer wg.Done()
          ...
          for try := 0; try < 100; try++ { err := opt.insertRow(tableName) ... }
          ...
          <-workerLimiter // worker has done it's work. so release the seat.
          ...
      }()
  }
  wg.Wait()
  \<close>
  The main routine stands before the send (\<open>Acquire\<close>), before the \<^verbatim>\<open>go\<close> statement
  (\<open>Spawn\<close>) or at \<^verbatim>\<open>wg.Wait()\<close> (\<open>Wait\<close>). A worker has not reached its loop yet
  (\<open>Start\<close>), is inside the call of \<^verbatim>\<open>insertRow\<close> number \<open>t\<close> (\<open>Inserting t\<close>), sleeps
  after that call failed with "Too many connections" (\<open>Sleeping t\<close>), has left the loop
  and not yet received from the channel (\<open>Release\<close>), or is past the receive
  (\<open>Finished\<close>).
\<close>

datatype main_pc = Acquire | Spawn | Wait

datatype worker_pc = Start | Inserting nat | Sleeping nat | Release | Finished

record sem_state =
  rows_started :: nat
  limiter :: nat
  main_at :: main_pc
  tasks :: "worker_pc list"

definition sem_init :: sem_state where
  "sem_init = \<lparr> rows_started = 0, limiter = 0, main_at = Acquire, tasks = [] \<rparr>"

inductive sem_step :: "nat \<Rightarrow> nat \<Rightarrow> sem_state \<Rightarrow> sem_state \<Rightarrow> bool"
  for C :: nat and n_rows :: nat
where
  acquire:
    "main_at s = Acquire \<Longrightarrow> rows_started s < n_rows \<Longrightarrow> limiter s < C \<Longrightarrow>
     sem_step C n_rows s (s\<lparr>limiter := limiter s + 1, main_at := Spawn\<rparr>)"
| spawn:
    "main_at s = Spawn \<Longrightarrow>
     sem_step C n_rows s
       (s\<lparr>tasks := tasks s @ [Start], rows_started := rows_started s + 1, main_at := Acquire\<rparr>)"
| loop_end:
    "main_at s = Acquire \<Longrightarrow> \<not> rows_started s < n_rows \<Longrightarrow>
     sem_step C n_rows s (s\<lparr>main_at := Wait\<rparr>)"
| first_call:
    "i < length (tasks s) \<Longrightarrow> tasks s ! i = Start \<Longrightarrow>
     sem_step C n_rows s (s\<lparr>tasks := (tasks s)[i := Inserting 0]\<rparr>)"
| call_too_many_connections:
    "i < length (tasks s) \<Longrightarrow> tasks s ! i = Inserting t \<Longrightarrow>
     sem_step C n_rows s (s\<lparr>tasks := (tasks s)[i := Sleeping t]\<rparr>)"
| call_returns:
    "i < length (tasks s) \<Longrightarrow> tasks s ! i = Inserting t \<Longrightarrow>
     sem_step C n_rows s (s\<lparr>tasks := (tasks s)[i := Release]\<rparr>)"
| next_call:
    "i < length (tasks s) \<Longrightarrow> tasks s ! i = Sleeping t \<Longrightarrow> t + 1 < 100 \<Longrightarrow>
     sem_step C n_rows s (s\<lparr>tasks := (tasks s)[i := Inserting (t + 1)]\<rparr>)"
| give_up:
    "i < length (tasks s) \<Longrightarrow> tasks s ! i = Sleeping t \<Longrightarrow> \<not> t + 1 < 100 \<Longrightarrow>
     sem_step C n_rows s (s\<lparr>tasks := (tasks s)[i := Release]\<rparr>)"
| release:
    "i < length (tasks s) \<Longrightarrow> tasks s ! i = Release \<Longrightarrow> 0 < limiter s \<Longrightarrow>
     sem_step C n_rows s
       (s\<lparr>limiter := limiter s - 1, tasks := (tasks s)[i := Finished]\<rparr>)"

inductive sem_reachable :: "nat \<Rightarrow> nat \<Rightarrow> sem_state \<Rightarrow> bool"
  for C :: nat and n_rows :: nat
where
  start: "sem_reachable C n_rows sem_init"
| step: "sem_reachable C n_rows s \<Longrightarrow> sem_step C n_rows s s' \<Longrightarrow>
         sem_reachable C n_rows s'"

fun is_inserting :: "worker_pc \<Rightarrow> bool" where
  "is_inserting (Inserting t) = True"
| "is_inserting _ = False"

fun holds_seat :: "worker_pc \<Rightarrow> bool" where
  "holds_seat Finished = False"
| "holds_seat _ = True"

definition seats :: "sem_state \<Rightarrow> nat" where
  \<comment> \<open>the seats taken: by workers not yet past the receive, and by the main routine
      between its send and the \<^verbatim>\<open>go\<close> statement\<close>
  "seats s = length (filter holds_seat (tasks s)) + (if main_at s = Spawn then 1 else 0)"

definition sem_in_flight :: "sem_state \<Rightarrow> nat" where
  \<comment> \<open>the workers inside a call of \<^verbatim>\<open>insertRow\<close>\<close>
  "sem_in_flight s = length (filter is_inserting (tasks s))"

text \<open>
  Worker-pool variant (second file of \<^verbatim>\<open>src/unnamed/part_001\<close>, lines 537-560):
  \<^verbatim>\<open>
  ctx, cancel := context.WithCancel(context.Background())
  wg := sync.WaitGroup{}
  for i := 0; i < opt.concurrency; i++ {
      wg.Add(1)
      go func() { defer wg.Done(); err := opt.insertRows(ctx); ... }()
  }
  wg.Add(1)
  go func() { defer wg.Done(); defer func() { ...; cancel() }(); opt.monitorProgress(...) }()
  wg.Wait()
  \<close>
  The main routine is in its loop (\<open>spawning\<close>) or past it; the monitor cancels the
  context at some moment after it was started. A worker stands at the \<^verbatim>\<open>select\<close> of
  \<^verbatim>\<open>insertRows\<close> (\<open>Select\<close>), is inside \<^verbatim>\<open>db.Exec\<close> (\<open>Executing\<close>) or has returned
  (\<open>Returned\<close>).
\<close>

datatype pool_pc = Select | Executing | Returned

record pool_state =
  started :: nat
  spawning :: bool
  cancelled :: bool
  pool_tasks :: "pool_pc list"

definition pool_init :: pool_state where
  "pool_init = \<lparr> started = 0, spawning = True, cancelled = False, pool_tasks = [] \<rparr>"

inductive pool_step :: "nat \<Rightarrow> pool_state \<Rightarrow> pool_state \<Rightarrow> bool"
  for C :: nat
where
  go_worker:
    "spawning s \<Longrightarrow> started s < C \<Longrightarrow>
     pool_step C s (s\<lparr>started := started s + 1, pool_tasks := pool_tasks s @ [Select]\<rparr>)"
| go_monitor:
    "spawning s \<Longrightarrow> \<not> started s < C \<Longrightarrow> pool_step C s (s\<lparr>spawning := False\<rparr>)"
| cancel:
    "\<not> spawning s \<Longrightarrow> pool_step C s (s\<lparr>cancelled := True\<rparr>)"
| select_default:
    "i < length (pool_tasks s) \<Longrightarrow> pool_tasks s ! i = Select \<Longrightarrow> \<not> cancelled s \<Longrightarrow>
     pool_step C s (s\<lparr>pool_tasks := (pool_tasks s)[i := Executing]\<rparr>)"
| select_done:
    "i < length (pool_tasks s) \<Longrightarrow> pool_tasks s ! i = Select \<Longrightarrow> cancelled s \<Longrightarrow>
     pool_step C s (s\<lparr>pool_tasks := (pool_tasks s)[i := Returned]\<rparr>)"
| exec_returns:
    "i < length (pool_tasks s) \<Longrightarrow> pool_tasks s ! i = Executing \<Longrightarrow>
     pool_step C s (s\<lparr>pool_tasks := (pool_tasks s)[i := Select]\<rparr>)"

inductive pool_reachable :: "nat \<Rightarrow> pool_state \<Rightarrow> bool"
  for C :: nat
where
  pool_start: "pool_reachable C pool_init"
| pool_next: "pool_reachable C s \<Longrightarrow> pool_step C s s' \<Longrightarrow> pool_reachable C s'"

definition pool_in_flight :: "pool_state \<Rightarrow> nat" where
  \<comment> \<open>the workers inside \<^verbatim>\<open>db.Exec\<close>\<close>
  "pool_in_flight s = length (filter (\<lambda>pc. pc = Executing) (pool_tasks s))"

section \<open>Properties\<close>

subsection \<open>Evaluation rules\<close>

lemmas size_eval = parseSize_def Atoi_def is_digit_def digit_val_def in_int64_def mul64_def
  wrap64_def formatSize_def OneKB_def OneMB_def OneGB_def fmt_f3_def float64_of_int_def
  round_half_even_def pad3_def show_nat.simps digit_char_def Let_def

subsection \<open>64-bit wrap-around\<close>



lemma wrap64_id: "in_int64 x \<Longrightarrow> wrap64 x = x"
  by (simp add: wrap64_def in_int64_def)

lemma wrap64_in_int64: "in_int64 (wrap64 x)"
proof -
  have "0 \<le> (x + 2 ^ 63) mod (2 ^ 64 :: int)" by simp
  moreover have "(x + 2 ^ 63) mod (2 ^ 64 :: int) < 2 ^ 64" by simp
  ultimately show ?thesis by (simp add: wrap64_def in_int64_def)
qed

subsection \<open>Facts about \<^verbatim>\<open>Atoi\<close>\<close>

lemma digit_val_nonneg: "0 \<le> digit_val c"
  by (simp add: digit_val_def)

lemma not_digit_point: "\<not> is_digit (CHR ''.'')"
  by (simp add: is_digit_def)

lemma scan_uint_not_panic: "scan_uint n s = Inl e \<Longrightarrow> \<not> is_panic e"
  by (induction s arbitrary: n) (auto split: if_splits)


lemma dec_value_mono: "list_all is_digit ds \<Longrightarrow> 0 \<le> n \<Longrightarrow> n \<le> dec_value n ds"
proof (induction ds arbitrary: n)
  case Nil
  show ?case by simp
next
  case (Cons c cs)
  have step: "n \<le> n * 10 + digit_val c" using Cons.prems(2) digit_val_nonneg [of c] by simp
  then have "0 \<le> n * 10 + digit_val c" using Cons.prems(2) by simp
  with Cons have "n * 10 + digit_val c \<le> dec_value (n * 10 + digit_val c) cs" by simp
  with step show ?case by simp
qed

lemma scan_uint_digits:
  "list_all is_digit ds \<Longrightarrow> 0 \<le> n \<Longrightarrow> dec_value n ds < 2 ^ 64 \<Longrightarrow>
     scan_uint n (ds @ rest) = scan_uint (dec_value n ds) rest"
proof (induction ds arbitrary: n)
  case Nil
  show ?case by simp
next
  case (Cons c cs)
  have nn: "0 \<le> n * 10 + digit_val c" using Cons.prems(2) digit_val_nonneg [of c] by simp
  from Cons.prems(1) have cs: "list_all is_digit cs" and c: "is_digit c" by simp_all
  from dec_value_mono [OF cs nn] Cons.prems(3) have small: "n * 10 + digit_val c < 2 ^ 64"
    by simp
  from Cons.IH [OF cs nn] Cons.prems(3)
  have "scan_uint (n * 10 + digit_val c) (cs @ rest) =
      scan_uint (dec_value (n * 10 + digit_val c) cs) rest" by simp
  with c small show ?case by simp
qed

lemma Atoi_not_panic: "Atoi s = Inl e \<Longrightarrow> \<not> is_panic e"
  by (auto simp: Atoi_def Let_def scan_uint_not_panic split: if_splits sum.splits)


lemma Atoi_point:
  assumes "list_all is_digit ds" "ds \<noteq> []" "dec_value 0 ds < 2 ^ 64"
    and "sg = [] \<or> sg = ''-''"
  shows "Atoi (sg @ ds @ CHR ''.'' # r) = Inl ErrSyntax"
proof -
  have scan: "scan_uint 0 (ds @ CHR ''.'' # r) = Inl ErrSyntax"
    using scan_uint_digits [OF assms(1) _ assms(3), of "CHR ''.'' # r"] not_digit_point
    by simp
  obtain d ds' where ds: "ds = d # ds'" using assms(2) by (cases ds) auto
  with assms(1) have "is_digit d" by simp
  then have d: "d \<noteq> CHR ''-''" "d \<noteq> CHR ''+''" by (auto simp: is_digit_def)
  from assms(4) show ?thesis
  proof
    assume "sg = []"
    with scan d ds show ?thesis by (simp add: Atoi_def Let_def)
  next
    assume "sg = ''-''"
    with scan ds show ?thesis by (simp add: Atoi_def Let_def)
  qed
qed

subsection \<open>Facts about the slicing \<^verbatim>\<open>parseSize\<close>\<close>

lemma parseSize_short: "length s < 2 \<Longrightarrow> parseSize s = Inl PanicSliceBounds"
  by (simp add: parseSize_def)

lemma parseSize_long_no_panic:
  assumes "2 \<le> length s" and "parseSize s = Inl e"
  shows "\<not> is_panic e"
proof (cases "Atoi (take (length s - 2) s)")
  case (Inl err)
  with assms have "e = err" by (simp add: parseSize_def)
  with Inl show ?thesis by (simp add: Atoi_not_panic)
next
  case (Inr n)
  with assms show ?thesis
    by (auto simp: parseSize_def Let_def split: if_splits)
qed

lemma parseSize_in_int64: "parseSize s = Inr n \<Longrightarrow> in_int64 n"
  by (auto simp: parseSize_def Let_def mul64_def wrap64_in_int64 split: if_splits sum.splits)

lemma parseSize_front_error:
  assumes "2 \<le> length r" "Atoi (x @ take (length r - 2) r) = Inl e"
  shows "parseSize (x @ r) = Inl e"
proof -
  have "take (length (x @ r) - 2) (x @ r) = x @ take (length r - 2) r"
    using assms(1) by simp
  moreover have "\<not> length (x @ r) < 2" using assms(1) by simp
  ultimately show ?thesis using assms(2)
    by (simp add: parseSize_def del: length_append take_append)
qed

lemma parseSize_point:
  assumes "list_all is_digit ds" "ds \<noteq> []" "dec_value 0 ds < 2 ^ 64"
    and "sg = [] \<or> sg = ''-''" and "2 \<le> length r"
  shows "parseSize ((sg @ ds @ ''.'') @ r) = Inl ErrSyntax"
proof -
  have "Atoi (sg @ ds @ CHR ''.'' # take (length r - 2) r) = Inl ErrSyntax"
    using assms(1-4) by (rule Atoi_point)
  then have "Atoi ((sg @ ds @ ''.'') @ take (length r - 2) r) = Inl ErrSyntax" by simp
  with assms(5) show ?thesis by (rule parseSize_front_error)
qed




subsection \<open>Facts about the oldest \<^verbatim>\<open>parseSize\<close>\<close>



subsection \<open>Facts about printed digits\<close>

lemma is_digit_digit_char: "is_digit (digit_char d)"
proof -
  have "d mod 10 < length ''0123456789''" by simp
  then have "''0123456789'' ! (d mod 10) \<in> set ''0123456789''" by (rule nth_mem)
  then show ?thesis by (simp only: is_digit_def digit_char_def)
qed

lemma digit_val_digit_char: "digit_val (digit_char d) = int (d mod 10)"
proof -
  have "d mod 10 < 10" by simp
  then consider "d mod 10 = 0" | "d mod 10 = 1" | "d mod 10 = 2" | "d mod 10 = 3"
    | "d mod 10 = 4" | "d mod 10 = 5" | "d mod 10 = 6" | "d mod 10 = 7" | "d mod 10 = 8"
    | "d mod 10 = 9"
    by atomize_elim presburger
  then show ?thesis by cases (simp_all add: digit_val_def digit_char_def)
qed

lemma show_nat_digits: "show_nat n \<noteq> [] \<and> list_all is_digit (show_nat n)"
proof (induction n rule: show_nat.induct)
  case (1 n)
  show ?case
  proof (cases "n < 10")
    case True
    then show ?thesis by (simp add: show_nat.simps [of n] is_digit_digit_char)
  next
    case False
    with 1 show ?thesis by (simp add: show_nat.simps [of n] is_digit_digit_char)
  qed
qed

lemma pad3_digits: "length (pad3 f) = 3 \<and> list_all is_digit (pad3 f)"
  by (simp add: pad3_def is_digit_digit_char)

lemma dec_value_append: "dec_value n (xs @ ys) = dec_value (dec_value n xs) ys"
  by (induction xs arbitrary: n) simp_all

lemma dec_value_show_nat: "dec_value 0 (show_nat a) = int a"
proof (induction a rule: show_nat.induct)
  case (1 n)
  show ?case
  proof (cases "n < 10")
    case True
    then show ?thesis by (simp add: show_nat.simps [of n] digit_val_digit_char)
  next
    case False
    with 1 have ih: "dec_value 0 (show_nat (n div 10)) = int (n div 10)" by simp
    have "show_nat n = show_nat (n div 10) @ [digit_char (n mod 10)]"
      using False by (simp add: show_nat.simps [of n])
    then have "dec_value 0 (show_nat n) = int (n div 10) * 10 + int (n mod 10 mod 10)"
      by (simp only: dec_value_append ih dec_value.simps digit_val_digit_char)
    also have "\<dots> = int n"
    proof -
      have "n div 10 * 10 + n mod 10 = n" by simp
      from arg_cong [OF this, of int] show ?thesis
        by (simp only: of_nat_add of_nat_mult of_nat_numeral mod_mod_trivial)
    qed
    finally show ?thesis .
  qed
qed

lemma three_digits:
  assumes "(b::nat) < 1000"
  shows "b div 100 mod 10 * 100 + b div 10 mod 10 * 10 + b mod 10 = b"
proof -
  have "b div 100 < 10" using assms by simp
  then have a: "b div 100 mod 10 = b div 100" by simp
  have "b mod (10 * 10) = 10 * (b div 10 mod 10) + b mod 10" by (rule mod_mult2_eq)
  then have m: "b mod 100 = b div 10 mod 10 * 10 + b mod 10" by simp
  have "b = b div 100 * 100 + b mod 100" by simp
  with a m show ?thesis by simp
qed

lemma dec_value_pad3:
  assumes "b < 1000"
  shows "dec_value n (pad3 b) = n * 1000 + int b"
proof -
  have "dec_value n (pad3 b) =
      ((n * 10 + int (b div 100 mod 10)) * 10 + int (b div 10 mod 10)) * 10 + int (b mod 10)"
    by (simp only: pad3_def dec_value.simps digit_val_digit_char)
  also have "\<dots> = n * 1000 +
      (int (b div 100 mod 10) * 100 + int (b div 10 mod 10) * 10 + int (b mod 10))"
    by simp
  also have "int (b div 100 mod 10) * 100 + int (b div 10 mod 10) * 10 + int (b mod 10) = int b"
    using arg_cong [OF three_digits [OF assms], of int]
    by (simp only: of_nat_add of_nat_mult of_nat_numeral)
  finally show ?thesis .
qed

lemma filter_digits: "list_all is_digit ds \<Longrightarrow> filter (\<lambda>c. c \<noteq> CHR ''.'') ds = ds"
  using not_digit_point by (induction ds) auto

lemma thousandths_digits:
  assumes "b < 1000"
  shows "thousandths (show_nat a @ CHR ''.'' # pad3 b) = int a * 1000 + int b"
proof -
  have "filter (\<lambda>c. c \<noteq> CHR ''.'') (show_nat a @ CHR ''.'' # pad3 b) = show_nat a @ pad3 b"
    using show_nat_digits [of a] pad3_digits [of b] by (simp add: filter_digits)
  then show ?thesis
    using assms by (simp add: thousandths_def dec_value_append dec_value_show_nat dec_value_pad3)
qed

lemma three_decimalsI:
  assumes "ip \<noteq> []" "list_all is_digit ip" "length fp = 3" "list_all is_digit fp"
  shows "three_decimals (ip @ CHR ''.'' # fp)"
proof -
  have len: "length (ip @ CHR ''.'' # fp) = length ip + 4" using assms(3) by simp
  have "1 \<le> length ip" using assms(1) by (cases ip) auto
  then show ?thesis
    unfolding three_decimals_def len using assms by (simp add: nth_append)
qed

subsection \<open>Facts about rounding\<close>

lemma bit_length_lower: "0 < a \<Longrightarrow> 2 ^ (bit_length a - 1) \<le> a"
proof (induction a rule: bit_length.induct)
  case (1 n)
  show ?case
  proof (cases "n div 2 = 0")
    case True
    with 1(2) have "n = 1" by presburger
    then show ?thesis
      by (simp add: bit_length.simps [of "Suc 0"] bit_length.simps [of 0])
  next
    case False
    with 1 have ih: "2 ^ (bit_length (n div 2) - 1) \<le> n div 2" by simp
    from False have pos: "0 < bit_length (n div 2)"
      by (simp add: bit_length.simps [of "n div 2"])
    have "bit_length n = Suc (bit_length (n div 2))"
      using 1(2) by (simp add: bit_length.simps [of n])
    then have "(2::nat) ^ (bit_length n - 1) = 2 * 2 ^ (bit_length (n div 2) - 1)"
      using pos by (cases "bit_length (n div 2)") simp_all
    also have "\<dots> \<le> 2 * (n div 2)" using ih by simp
    also have "\<dots> \<le> n" by simp
    finally show ?thesis .
  qed
qed

lemma bit_length_upper: "a < 2 ^ bit_length a"
proof (induction a rule: bit_length.induct)
  case (1 n)
  show ?case
  proof (cases "n = 0")
    case True
    then show ?thesis by simp
  next
    case False
    with 1 have ih: "n div 2 < 2 ^ bit_length (n div 2)" by simp
    have "bit_length n = Suc (bit_length (n div 2))"
      using False by (simp add: bit_length.simps [of n])
    moreover have "n < 2 * (n div 2 + 1)" by presburger
    moreover have "2 * (n div 2 + 1) \<le> 2 * 2 ^ bit_length (n div 2)" using ih by simp
    ultimately show ?thesis by simp
  qed
qed

lemma round_half_even_pos:
  assumes "0 < d" "d \<le> a"
  shows "0 < round_half_even a d"
proof -
  from assms have "1 \<le> a div d" by (simp add: div_greater_zero_iff Suc_le_eq)
  then show ?thesis by (simp add: round_half_even_def Let_def)
qed

lemma round_half_even_nearest:
  assumes "0 < d"
  shows "2 * a \<le> 2 * (round_half_even a d * d) + d \<and> 2 * (round_half_even a d * d) \<le> 2 * a + d"
proof -
  have split: "a = a div d * d + a mod d" by simp
  have r: "a mod d < d" using assms by simp
  show ?thesis
  proof (cases "d < 2 * (a mod d) \<or> (2 * (a mod d) = d \<and> odd (a div d))")
    case True
    then have "round_half_even a d * d = a div d * d + d"
      by (simp add: round_half_even_def Let_def)
    with split r True show ?thesis by linarith
  next
    case False
    then have "round_half_even a d * d = a div d * d"
      by (auto simp: round_half_even_def Let_def)
    with split r False show ?thesis by linarith
  qed
qed

lemma round_half_even_le_succ: "round_half_even a d \<le> a div d + 1"
  by (simp add: round_half_even_def Let_def)

lemma round_half_even_exact: "a mod d = 0 \<Longrightarrow> 0 < d \<Longrightarrow> round_half_even a d = a div d"
  by (simp add: round_half_even_def Let_def)

lemma round_half_even_le_multiple:
  assumes "0 < d" "d dvd M" "a \<le> M"
  shows "round_half_even a d * d \<le> M"
proof -
  from assms(2) obtain j where M: "M = d * j" by (auto simp: dvd_def)
  have "(d * j) div d = j" using assms(1) by simp
  moreover have "a div d \<le> (d * j) div d" using assms(3) unfolding M by (rule div_le_mono)
  ultimately have le: "a div d \<le> j" by simp
  show ?thesis
  proof (cases "a div d = j")
    case True
    have "a div d * d \<le> a" by simp
    with True M assms(3) have "a = d * j" by (simp add: mult.commute)
    then have "a mod d = 0" by simp
    with assms(1) True M show ?thesis by (simp add: round_half_even_exact mult.commute)
  next
    case False
    with le have "a div d + 1 \<le> j" by simp
    with round_half_even_le_succ [of a d] have "round_half_even a d \<le> j" by simp
    then have "round_half_even a d * d \<le> j * d" by simp
    with M show ?thesis by (simp add: mult.commute)
  qed
qed

subsection \<open>Facts about \<^verbatim>\<open>formatSize\<close>\<close>

lemma float64_of_int_sign: "(0 \<le> float64_of_int n) = (0 \<le> n)"
proof (cases "nat \<bar>n\<bar> < 2 ^ 53")
  case True
  then show ?thesis by (simp add: float64_of_int_def)
next
  case False
  define a where "a = nat \<bar>n\<bar>"
  define e where "e = bit_length a - 53"
  from False have apos: "0 < a" and nz: "n \<noteq> 0" by (auto simp: a_def)
  have "(2::nat) ^ e \<le> 2 ^ (bit_length a - 1)"
    unfolding e_def by (rule power_increasing) simp_all
  also have "\<dots> \<le> a" using apos by (rule bit_length_lower)
  finally have "0 < round_half_even a (2 ^ e)" by (intro round_half_even_pos) simp_all
  then have pos: "0 < int (round_half_even a (2 ^ e) * 2 ^ e)" by simp
  have eq: "float64_of_int n = sgn n * int (round_half_even a (2 ^ e) * 2 ^ e)"
    using False by (simp add: float64_of_int_def a_def e_def Let_def)
  show ?thesis
  proof (cases "0 < n")
    case True
    with pos eq show ?thesis by simp
  next
    case neg: False
    with nz have "n < 0" by simp
    then have "sgn n = -1" by simp
    with eq pos have "float64_of_int n < 0" by simp
    with \<open>n < 0\<close> show ?thesis by simp
  qed
qed

lemma near_as_int:
  fixes a r d :: nat
  assumes "2 * a \<le> 2 * r + d \<and> 2 * r \<le> 2 * a + d"
  shows "2 * \<bar>int r - int a\<bar> \<le> int d"
  using assms by arith

lemma float64_of_int_rounded:
  assumes "\<not> nat \<bar>n\<bar> < 2 ^ 53"
  shows "\<exists>e r. bit_length (nat \<bar>n\<bar>) = e + 53 \<and> r = round_half_even (nat \<bar>n\<bar>) (2 ^ e) * 2 ^ e \<and>
           \<bar>float64_of_int n\<bar> = int r \<and> \<bar>float64_of_int n - n\<bar> = \<bar>int r - int (nat \<bar>n\<bar>)\<bar>"
proof -
  define a where "a = nat \<bar>n\<bar>"
  define e where "e = bit_length a - 53"
  define r where "r = round_half_even a (2 ^ e) * 2 ^ e"
  from assms have big: "2 ^ 53 \<le> a" by (simp add: a_def)
  have "(2::nat) ^ 53 < 2 ^ bit_length a" using big bit_length_upper [of a] by linarith
  then have "53 < bit_length a"
    using power_less_imp_less_exp [of "2::nat" 53 "bit_length a"] by simp
  then have len: "bit_length a = e + 53" by (simp add: e_def)
  have eq: "float64_of_int n = sgn n * int r"
    using assms by (simp add: float64_of_int_def a_def e_def r_def Let_def)
  have nz: "n \<noteq> 0" using assms by auto
  have an: "int a = \<bar>n\<bar>" by (simp add: a_def)
  have abs: "\<bar>float64_of_int n\<bar> = int r" using eq nz by (simp add: abs_mult abs_sgn_eq)
  have "float64_of_int n - n = sgn n * (int r - int a)"
  proof -
    have "n = sgn n * \<bar>n\<bar>" by (simp add: abs_sgn mult.commute)
    then have "n = sgn n * int a" using an by simp
    then have "float64_of_int n - n = sgn n * int r - sgn n * int a" using eq by simp
    then show ?thesis by (simp only: right_diff_distrib)
  qed
  then have "\<bar>float64_of_int n - n\<bar> = \<bar>int r - int a\<bar>"
    using nz by (simp add: abs_mult abs_sgn_eq)
  with len abs show ?thesis unfolding r_def a_def by blast
qed

lemma float64_of_int_bound:
  assumes "in_int64 n"
  shows "\<bar>float64_of_int n\<bar> \<le> 2 ^ 63"
proof (cases "nat \<bar>n\<bar> < 2 ^ 53")
  case True
  then show ?thesis using assms by (simp add: float64_of_int_def in_int64_def)
next
  case False
  define a where "a = nat \<bar>n\<bar>"
  from float64_of_int_rounded [OF False] obtain e r where
    len: "bit_length a = e + 53" and r: "r = round_half_even a (2 ^ e) * 2 ^ e"
    and abs: "\<bar>float64_of_int n\<bar> = int r"
    unfolding a_def by blast
  have "\<bar>n\<bar> \<le> 2 ^ 63" using assms by (simp add: in_int64_def abs_le_iff)
  then have a63: "a \<le> 2 ^ 63" unfolding a_def by (simp add: nat_le_iff)
  have apos: "0 < a" using False by (auto simp: a_def)
  have "(2::nat) ^ (bit_length a - 1) \<le> 2 ^ 63" using bit_length_lower [OF apos] a63 by linarith
  then have "bit_length a - 1 \<le> 63"
    using power_le_imp_le_exp [of "2::nat" "bit_length a - 1" 63] by simp
  with len have "e \<le> 63" by simp
  then have "(2::nat) ^ e dvd 2 ^ 63" by (rule le_imp_power_dvd)
  then have "r \<le> 2 ^ 63" unfolding r using a63 by (intro round_half_even_le_multiple) simp_all
  with abs show ?thesis by simp
qed

lemma float64_of_int_error: "2 ^ 53 * \<bar>float64_of_int n - n\<bar> \<le> \<bar>n\<bar>"
proof (cases "nat \<bar>n\<bar> < 2 ^ 53")
  case True
  then show ?thesis by (simp add: float64_of_int_def)
next
  case False
  define a where "a = nat \<bar>n\<bar>"
  from float64_of_int_rounded [OF False] obtain e r where
    len: "bit_length a = e + 53" and r: "r = round_half_even a (2 ^ e) * 2 ^ e"
    and err: "\<bar>float64_of_int n - n\<bar> = \<bar>int r - int a\<bar>"
    unfolding a_def by blast
  have apos: "0 < a" using False by (auto simp: a_def)
  from round_half_even_nearest [of "2 ^ e" a]
  have near: "2 * a \<le> 2 * r + 2 ^ e \<and> 2 * r \<le> 2 * a + 2 ^ e" unfolding r by simp
  then have "2 * \<bar>int r - int a\<bar> \<le> int (2 ^ e)" by (rule near_as_int)
  then have "2 * \<bar>int r - int a\<bar> \<le> 2 ^ e" by simp
  then have "2 ^ 52 * (2 * \<bar>int r - int a\<bar>) \<le> 2 ^ 52 * (2 ^ e :: int)"
    by (rule mult_left_mono) simp
  then have "2 ^ 53 * \<bar>int r - int a\<bar> \<le> (2 ^ (e + 52) :: int)"
    by (simp add: power_add mult.commute)
  also have "(2 ^ (e + 52) :: int) = int (2 ^ (bit_length a - 1))" using len by simp
  also have "\<dots> \<le> int a" using bit_length_lower [OF apos] by (simp only: of_nat_le_iff)
  finally show ?thesis using err by (simp add: a_def)
qed

lemma display_unit_cases: "display_unit n \<in> {''B'', ''KB'', ''MB'', ''GB''}"
  by (simp add: display_unit_def)

lemma formatSize_split:
  "\<exists>k. formatSize n = fmt_f3 (float64_of_int n) k @ '' '' @ display_unit n \<and>
       unit_factor (display_unit n) = 2 ^ k"
proof -
  consider "n \<le> 1024" | "1024 < n" "n \<le> 1024 ^ 2" | "1024 ^ 2 < n" "n \<le> 1024 ^ 3"
    | "1024 ^ 3 < n" by linarith
  then show ?thesis
  proof cases
    case 1
    then have "formatSize n = fmt_f3 (float64_of_int n) 0 @ '' '' @ display_unit n \<and>
        unit_factor (display_unit n) = 2 ^ 0"
      by (simp add: formatSize_def display_unit_def unit_factor_def OneKB_def)
    then show ?thesis by blast
  next
    case 2
    then have "formatSize n = fmt_f3 (float64_of_int n) 10 @ '' '' @ display_unit n \<and>
        unit_factor (display_unit n) = 2 ^ 10"
      by (simp add: formatSize_def display_unit_def unit_factor_def OneKB_def OneMB_def)
    then show ?thesis by blast
  next
    case 3
    then have "formatSize n = fmt_f3 (float64_of_int n) 20 @ '' '' @ display_unit n \<and>
        unit_factor (display_unit n) = 2 ^ 20"
      by (simp add: formatSize_def display_unit_def unit_factor_def OneKB_def OneMB_def
          OneGB_def)
    then show ?thesis by blast
  next
    case 4
    then have "formatSize n = fmt_f3 (float64_of_int n) 30 @ '' '' @ display_unit n \<and>
        unit_factor (display_unit n) = 2 ^ 30"
      by (simp add: formatSize_def display_unit_def unit_factor_def OneKB_def OneMB_def
          OneGB_def)
    then show ?thesis by blast
  qed
qed

lemma formatSize_parts:
  "\<exists>k t. unit_factor (display_unit n) = 2 ^ k \<and>
     t = round_half_even (nat \<bar>float64_of_int n\<bar> * 1000) (2 ^ k) \<and>
     formatSize n =
       (if 0 \<le> n then [] else ''-'') @ show_nat (t div 1000) @ ''.'' @ pad3 (t mod 1000) @
       '' '' @ display_unit n"
proof -
  obtain k where k: "formatSize n = fmt_f3 (float64_of_int n) k @ '' '' @ display_unit n"
    "unit_factor (display_unit n) = 2 ^ k"
    using formatSize_split by blast
  define t where "t = round_half_even (nat \<bar>float64_of_int n\<bar> * 1000) (2 ^ k)"
  have "(float64_of_int n < 0) = (\<not> 0 \<le> n)" using float64_of_int_sign [of n] by linarith
  then have "fmt_f3 (float64_of_int n) k =
      (if 0 \<le> n then [] else ''-'') @ show_nat (t div 1000) @ ''.'' @ pad3 (t mod 1000)"
    by (simp add: fmt_f3_def t_def Let_def)
  with k t_def show ?thesis by auto
qed

lemma formatSize_shape:
  "\<exists>mag. three_decimals mag \<and>
     formatSize n = (if 0 \<le> n then mag else CHR ''-'' # mag) @ '' '' @ display_unit n \<and>
     thousandths mag =
       int (round_half_even (nat \<bar>float64_of_int n\<bar> * 1000)
              (nat (unit_factor (display_unit n))))"
proof -
  obtain k t where k: "unit_factor (display_unit n) = 2 ^ k"
    and t: "t = round_half_even (nat \<bar>float64_of_int n\<bar> * 1000) (2 ^ k)"
    and f: "formatSize n =
       (if 0 \<le> n then [] else ''-'') @ show_nat (t div 1000) @ ''.'' @ pad3 (t mod 1000) @
       '' '' @ display_unit n"
    using formatSize_parts by blast
  define mag where "mag = show_nat (t div 1000) @ CHR ''.'' # pad3 (t mod 1000)"
  have "three_decimals mag"
    unfolding mag_def using show_nat_digits pad3_digits by (intro three_decimalsI) auto
  moreover have "formatSize n = (if 0 \<le> n then mag else CHR ''-'' # mag) @ '' '' @ display_unit n"
    using f by (simp add: mag_def)
  moreover have "thousandths mag = int t"
  proof -
    have "thousandths mag = int (t div 1000) * 1000 + int (t mod 1000)"
      unfolding mag_def by (rule thousandths_digits) simp
    also have "\<dots> = int (t div 1000 * 1000 + t mod 1000)"
      by (simp only: of_nat_add of_nat_mult of_nat_numeral)
    also have "t div 1000 * 1000 + t mod 1000 = t" by simp
    finally show ?thesis .
  qed
  moreover have "nat (unit_factor (display_unit n)) = 2 ^ k" using k by (simp add: nat_power_eq)
  ultimately show ?thesis using t by (simp only:) blast
qed

lemma formatSize_nearest:
  assumes "t = int (round_half_even (nat \<bar>float64_of_int n\<bar> * 1000)
                      (nat (unit_factor (display_unit n))))"
  shows "2 * \<bar>t * unit_factor (display_unit n) - 1000 * \<bar>float64_of_int n\<bar>\<bar>
           \<le> unit_factor (display_unit n)"
proof -
  define d where "d = nat (unit_factor (display_unit n))"
  define a where "a = nat \<bar>float64_of_int n\<bar> * 1000"
  have dpos: "0 < d" and d: "unit_factor (display_unit n) = int d"
    by (simp_all add: d_def unit_factor_def)
  have a: "1000 * \<bar>float64_of_int n\<bar> = int a" by (simp add: a_def)
  from round_half_even_nearest [OF dpos, of a]
  have "2 * a \<le> 2 * (round_half_even a d * d) + d \<and> 2 * (round_half_even a d * d) \<le> 2 * a + d" .
  then have "2 * \<bar>int (round_half_even a d * d) - int a\<bar> \<le> int d" by (rule near_as_int)
  moreover have "t = int (round_half_even a d)" using assms by (simp add: a_def d_def)
  ultimately show ?thesis unfolding d a by simp
qed

lemma formatSize_examples:
  "formatSize 0 = ''0.000 B''" "formatSize 1024 = ''1024.000 B''"
  "formatSize 1025 = ''1.001 KB''" "formatSize 1088 = ''1.062 KB''"
  "formatSize 1536000 = ''1.465 MB''" "formatSize 1610612736 = ''1.500 GB''"
  "formatSize (- 5) = ''-5.000 B''"
  by (simp_all add: size_eval)

lemma parseSize_formatSize:
  assumes "in_int64 n"
  shows "parseSize (formatSize n) = Inl ErrSyntax"
proof -
  obtain k t where t: "t = round_half_even (nat \<bar>float64_of_int n\<bar> * 1000) (2 ^ k)"
    and f: "formatSize n =
       (if 0 \<le> n then [] else ''-'') @ show_nat (t div 1000) @ ''.'' @ pad3 (t mod 1000) @
       '' '' @ display_unit n"
    using formatSize_parts by blast
  define sg where "sg = (if 0 \<le> n then [] else ''-'')"
  define r where "r = pad3 (t mod 1000) @ '' '' @ display_unit n"
  have eq: "formatSize n = (sg @ show_nat (t div 1000) @ ''.'') @ r"
    using f by (simp add: sg_def r_def)
  have "t \<le> nat \<bar>float64_of_int n\<bar> * 1000 div 2 ^ k + 1"
    unfolding t by (rule round_half_even_le_succ)
  also have "\<dots> \<le> nat \<bar>float64_of_int n\<bar> * 1000 + 1" by (simp add: div_le_dividend)
  finally have "t div 1000 \<le> (nat \<bar>float64_of_int n\<bar> * 1000 + 1) div 1000"
    by (rule div_le_mono)
  also have "\<dots> = nat \<bar>float64_of_int n\<bar>" by simp
  finally have "int (t div 1000) \<le> \<bar>float64_of_int n\<bar>" by linarith
  also have "\<dots> \<le> 2 ^ 63" using assms by (rule float64_of_int_bound)
  finally have small: "dec_value 0 (show_nat (t div 1000)) < 2 ^ 64"
    by (simp add: dec_value_show_nat)
  have "2 \<le> length r" by (simp add: r_def pad3_def)
  moreover have "sg = [] \<or> sg = ''-''" by (simp add: sg_def)
  ultimately have "parseSize ((sg @ show_nat (t div 1000) @ ''.'') @ r) = Inl ErrSyntax"
    using show_nat_digits [of "t div 1000"] small by (intro parseSize_point) simp_all
  with eq show ?thesis by simp
qed

subsection \<open>Facts about the scanner\<close>

















subsection \<open>Facts about float64 values\<close>










subsection \<open>Facts about the scanning \<^verbatim>\<open>parseSize\<close>\<close>










subsection \<open>The claims about sizes\<close>




text \<open>
  Claim C7, as the code has it. \<^verbatim>\<open>formatSize\<close> writes for display: its text has a decimal
  point before the unit, and the slicing \<^verbatim>\<open>parseSize\<close> of \<^verbatim>\<open>src/main.go\<close> hands the text
  in front of the last two bytes to \<^verbatim>\<open>strconv.Atoi\<close>, which refuses the point. So for every
  size string that parses to a byte count \<open>n\<close>, parsing \<^verbatim>\<open>formatSize(n)\<close> is a syntax
  error and never a byte count: there is no round trip through \<^verbatim>\<open>formatSize\<close>.
\<close>

theorem parseSize_of_formatSize_is_error:
  "parseSize s = Inr n \<Longrightarrow>
     parseSize (formatSize n) = Inl ErrSyntax \<and> parseSize (formatSize n) \<noteq> parseSize s"
  using parseSize_formatSize [OF parseSize_in_int64, of s n] by simp

theorem parseSize_of_formatSize_is_error_witness:
  "parseSize ''128MB'' = Inr 134217728 \<and>
   parseSize (formatSize 134217728) = Inl ErrSyntax \<and>
   parseSize (formatSize 134217728) \<noteq> parseSize ''128MB''"
proof -
  have p: "parseSize ''128MB'' = Inr 134217728" by (simp add: size_eval)
  from parseSize_of_formatSize_is_error [OF p] p show ?thesis by simp
qed

text \<open>
  The round trip claimed fails at \<^verbatim>\<open>10KB\<close>: it parses to 10240, which is formatted as
  \<^verbatim>\<open>10.000 KB\<close>, and parsing that text is an error, not 10240.
\<close>

theorem roundtrip_10KB_counterexample:
  "parseSize ''10KB'' = Inr 10240 \<and> formatSize 10240 = ''10.000 KB'' \<and>
   parseSize (formatSize 10240) = Inl ErrSyntax"
  by (simp add: size_eval)

text \<open>
  Claim C8. For every byte count \<open>n\<close>, \<^verbatim>\<open>formatSize(n)\<close> is a magnitude written with
  exactly three decimals, a space, and the unit of the \<^verbatim>\<open>size <= threshold\<close> rule: B when
  \<open>n \<le> 1024\<close>, KB when \<open>1024 < n \<le> 1024\<^sup>2\<close>, MB when \<open>1024\<^sup>2 < n \<le> 1024\<^sup>3\<close>, GB
  otherwise. The unit is one of B, KB, MB, GB. The magnitude is the size in that unit to
  three decimal places: read as a number of thousandths, it is \<open>1000 * \<bar>x\<bar>\<close> divided by
  the unit's factor and rounded to the nearest integer (a tie to the even one), so that
  it differs from the exact quotient by at most half a thousandth; here \<open>x\<close> is
  \<^verbatim>\<open>float64(n)\<close>, which is \<open>n\<close> itself below \<open>2\<^sup>5\<^sup>3\<close> and never differs from \<open>n\<close> by more
  than \<open>\<bar>n\<bar> / 2\<^sup>5\<^sup>3\<close>. The magnitude consists of digits and the point, so it is never
  negative; the magnitude of a byte count (a number \<open>n \<ge> 0\<close>) carries no sign, and only
  a negative argument, which is not a byte count, is printed with a minus sign in front.
\<close>

theorem formatSize_three_decimals_and_unit:
  "\<exists>mag. three_decimals mag \<and>
     formatSize n = (if 0 \<le> n then mag else CHR ''-'' # mag) @ '' '' @ display_unit n \<and>
     display_unit n \<in> {''B'', ''KB'', ''MB'', ''GB''} \<and>
     thousandths mag =
       int (round_half_even (nat \<bar>float64_of_int n\<bar> * 1000)
              (nat (unit_factor (display_unit n)))) \<and>
     2 * \<bar>thousandths mag * unit_factor (display_unit n) - 1000 * \<bar>float64_of_int n\<bar>\<bar>
       \<le> unit_factor (display_unit n) \<and>
     2 ^ 53 * \<bar>float64_of_int n - n\<bar> \<le> \<bar>n\<bar>"
proof -
  obtain mag where mag: "three_decimals mag"
    "formatSize n = (if 0 \<le> n then mag else CHR ''-'' # mag) @ '' '' @ display_unit n"
    "thousandths mag =
       int (round_half_even (nat \<bar>float64_of_int n\<bar> * 1000)
              (nat (unit_factor (display_unit n))))"
    using formatSize_shape by blast
  from formatSize_nearest [OF mag(3)]
  have "2 * \<bar>thousandths mag * unit_factor (display_unit n) - 1000 * \<bar>float64_of_int n\<bar>\<bar>
       \<le> unit_factor (display_unit n)" .
  with mag display_unit_cases [of n] float64_of_int_error [of n] show ?thesis by blast
qed

text \<open>
  Claim C10. In the variants that slice the last two characters, \<^verbatim>\<open>parseSize\<close> is total
  only on strings of at least two bytes: on every shorter string, the empty string among
  them, slicing the suffix panics (slice bounds out of range) and no error value is
  returned; on every string of two bytes or more it returns a number or an error and does
  not panic.
\<close>

theorem parseSize_panics_below_two_bytes:
  "(length s < 2 \<longrightarrow> parseSize s = Inl PanicSliceBounds) \<and>
   (2 \<le> length s \<longrightarrow> (\<forall>e. parseSize s = Inl e \<longrightarrow> \<not> is_panic e))"
  using parseSize_short parseSize_long_no_panic by blast

theorem parseSize_panics_below_two_bytes_witness:
  "parseSize '''' = Inl PanicSliceBounds \<and> parseSize ''G'' = Inl PanicSliceBounds \<and>
   parseSize ''7XB'' = Inl (ErrUnit ''XB'') \<and> \<not> is_panic (ErrUnit ''XB'')"
  using parseSize_panics_below_two_bytes [of "''''"]
    parseSize_panics_below_two_bytes [of "''G''"]
    parseSize_panics_below_two_bytes [of "''7XB''"]
  by (simp add: size_eval)

subsection \<open>The retry loop\<close>

lemma insertWithRetry_stop:
  assumes "tryno < 100" "\<not> too_many_connections (insertRow tryno)"
  shows "insertWithRetry insertRow tryno slept prev = (tryno + 1, slept, insertRow tryno)"
  using assms
  by (cases "insertRow tryno")
     (simp_all add: insertWithRetry.simps [of insertRow tryno] too_many_connections_def)

lemma insertWithRetry_again:
  assumes "tryno < 100" "too_many_connections (insertRow tryno)"
  shows "insertWithRetry insertRow tryno slept prev =
         insertWithRetry insertRow (tryno + 1) (slept + 5) (insertRow tryno)"
  using assms
  by (cases "insertRow tryno")
     (simp_all add: insertWithRetry.simps [of insertRow tryno] too_many_connections_def)

lemma insertWithRetry_exhausted:
  "insertWithRetry insertRow 100 slept prev = (100, slept, prev)"
  by (simp add: insertWithRetry.simps [of insertRow 100])

lemma insertWithRetry_run:
  assumes "\<forall>k. tryno \<le> k \<and> k < j \<longrightarrow> too_many_connections (insertRow k)"
    and "tryno \<le> j" "j < 100" "\<not> too_many_connections (insertRow j)"
  shows "insertWithRetry insertRow tryno slept prev =
         (j + 1, slept + 5 * (j - tryno), insertRow j)"
  using assms
proof (induction "j - tryno" arbitrary: tryno slept prev)
  case 0
  then have "tryno = j" by simp
  with 0 show ?case by (simp add: insertWithRetry_stop)
next
  case (Suc d)
  then have lt: "tryno < j" by simp
  with Suc.prems have tmc: "too_many_connections (insertRow tryno)" by simp
  from lt Suc.prems have "tryno < 100" by simp
  then have "insertWithRetry insertRow tryno slept prev =
      insertWithRetry insertRow (tryno + 1) (slept + 5) (insertRow tryno)"
    using tmc by (rule insertWithRetry_again)
  also have "\<dots> = (j + 1, slept + 5 + 5 * (j - (tryno + 1)), insertRow j)"
  proof (rule Suc.hyps(1))
    show "d = j - (tryno + 1)" using Suc.hyps(2) by simp
    show "\<forall>k. tryno + 1 \<le> k \<and> k < j \<longrightarrow> too_many_connections (insertRow k)"
      using Suc.prems(1) by simp
    show "tryno + 1 \<le> j" using lt by simp
    show "j < 100" by fact
    show "\<not> too_many_connections (insertRow j)" by fact
  qed
  also have "slept + 5 + 5 * (j - (tryno + 1)) = slept + 5 * (j - tryno)"
    using lt by simp
  finally show ?case .
qed

lemma insertWithRetry_give_up:
  assumes "\<forall>k. tryno \<le> k \<and> k < 100 \<longrightarrow> too_many_connections (insertRow k)"
    and "tryno < 100"
  shows "insertWithRetry insertRow tryno slept prev =
         (100, slept + 5 * (100 - tryno), insertRow 99)"
  using assms
proof (induction "99 - tryno" arbitrary: tryno slept prev)
  case 0
  then have t: "tryno = 99" by simp
  with 0 have "too_many_connections (insertRow 99)" by simp
  then have "insertWithRetry insertRow 99 slept prev =
      insertWithRetry insertRow (99 + 1) (slept + 5) (insertRow 99)"
    by (intro insertWithRetry_again) simp_all
  with t show ?case by (simp add: insertWithRetry_exhausted)
next
  case (Suc d)
  then have lt: "tryno < 99" by simp
  with Suc.prems have tmc: "too_many_connections (insertRow tryno)" by simp
  have "insertWithRetry insertRow tryno slept prev =
      insertWithRetry insertRow (tryno + 1) (slept + 5) (insertRow tryno)"
    using Suc.prems(2) tmc by (rule insertWithRetry_again)
  also have "\<dots> = (100, slept + 5 + 5 * (100 - (tryno + 1)), insertRow 99)"
  proof (rule Suc.hyps(1))
    show "d = 99 - (tryno + 1)" using Suc.hyps(2) by simp
    show "\<forall>k. tryno + 1 \<le> k \<and> k < 100 \<longrightarrow> too_many_connections (insertRow k)"
      using Suc.prems(1) by simp
    show "tryno + 1 < 100" using lt by simp
  qed
  also have "slept + 5 + 5 * (100 - (tryno + 1)) = slept + 5 * (100 - tryno)"
    using lt by simp
  finally show ?case .
qed

lemma insertWithRetry_calls_bound:
  "tryno \<le> 100 \<Longrightarrow> fst (insertWithRetry insertRow tryno slept prev) \<le> 100"
proof (induction insertRow tryno slept prev rule: insertWithRetry.induct)
  case (1 insertRow tryno slept prev)
  show ?case
  proof (cases "tryno < 100")
    case False
    with 1(2) have "tryno = 100" by simp
    then show ?thesis by (simp add: insertWithRetry_exhausted)
  next
    case True
    show ?thesis
    proof (cases "insertRow tryno")
      case None
      with True show ?thesis by (simp add: insertWithRetry.simps [of insertRow tryno])
    next
      case (Some msg)
      show ?thesis
      proof (cases "contains msg ''Too many connections''")
        case tmc: True
        with 1(1) [OF True Some tmc] True Some show ?thesis
          by (simp add: insertWithRetry.simps [of insertRow tryno])
      next
        case False
        with True Some show ?thesis by (simp add: insertWithRetry.simps [of insertRow tryno])
      qed
    qed
  qed
qed

subsection \<open>The size probe\<close>

lemmas db_eval = getClient_def dsn_def show_int_def show_nat.simps digit_char_def
  create_database_def ensureDatabase_main_def ensureDatabase_pool_def
  getDatabaseSize_main_def getDatabaseSize_pool_def select_size_def quoted_def
  table_names_def check_tables_def analyze_tables_def create_table_stmt_def
  default_options_def quiet_server_def has_prefix_def Let_def

lemma select_is_no_refresh:
  "select_size opt \<noteq> check_tables opt'" "select_size opt \<noteq> analyze_tables opt'"
  by (simp_all add: select_size_def check_tables_def analyze_tables_def)

lemma check_is_not_analyze: "check_tables opt \<noteq> analyze_tables opt'"
  by (simp add: check_tables_def analyze_tables_def)

lemma scan_rows_all_null: "list_all (\<lambda>r. snd r = None) rows \<Longrightarrow> scan_rows rows = Inr 0"
  by (induction rows rule: scan_rows.induct) simp_all

lemma getDatabaseSize_pool_cases:
  "(\<exists>msg. query_res db tr (check_tables opt) = Inl msg \<and>
      getDatabaseSize_pool opt db tr = (tr @ [Query (check_tables opt)], Inl (ErrDb msg))) \<or>
   (\<exists>c msg. query_res db tr (check_tables opt) = Inr c \<and>
      query_res db (tr @ [Query (check_tables opt)]) (analyze_tables opt) = Inl msg \<and>
      getDatabaseSize_pool opt db tr =
        (tr @ [Query (check_tables opt), Query (analyze_tables opt)], Inl (ErrDb msg))) \<or>
   (\<exists>c a. query_res db tr (check_tables opt) = Inr c \<and>
      query_res db (tr @ [Query (check_tables opt)]) (analyze_tables opt) = Inr a \<and>
      getDatabaseSize_pool opt db tr =
        (tr @ [Query (check_tables opt), Query (analyze_tables opt), Query (select_size opt)],
         case query_res db (tr @ [Query (check_tables opt), Query (analyze_tables opt)])
                (select_size opt) of
           Inl msg \<Rightarrow> Inl (ErrDb msg) | Inr rows \<Rightarrow> scan_rows rows))"
  by (auto simp: getDatabaseSize_pool_def split: sum.splits)

lemma getDatabaseSize_pool_select:
  assumes "Query (select_size opt) \<in> set (drop (length tr) (fst (getDatabaseSize_pool opt db tr)))"
  shows "fst (getDatabaseSize_pool opt db tr) =
           tr @ [Query (check_tables opt), Query (analyze_tables opt), Query (select_size opt)] \<and>
         (\<exists>c. query_res db tr (check_tables opt) = Inr c) \<and>
         (\<exists>a. query_res db (tr @ [Query (check_tables opt)]) (analyze_tables opt) = Inr a)"
  using getDatabaseSize_pool_cases [of db tr opt] assms select_is_no_refresh [of opt opt]
  by (elim disjE exE conjE) simp_all

lemma getDatabaseSize_pool_value:
  assumes "snd (getDatabaseSize_pool opt db tr) = Inr n"
  shows "fst (getDatabaseSize_pool opt db tr) =
           tr @ [Query (check_tables opt), Query (analyze_tables opt), Query (select_size opt)]"
  using getDatabaseSize_pool_cases [of db tr opt] assms
  by (elim disjE exE conjE) simp_all

lemma getDatabaseSize_pool_zero:
  assumes "query_res db tr (check_tables opt) = Inr c"
    and "query_res db (tr @ [Query (check_tables opt)]) (analyze_tables opt) = Inr a"
    and "query_res db (tr @ [Query (check_tables opt), Query (analyze_tables opt)])
           (select_size opt) = Inr rows"
    and "list_all (\<lambda>r. snd r = None) rows"
  shows "snd (getDatabaseSize_pool opt db tr) = Inr 0"
  using assms by (simp add: getDatabaseSize_pool_def scan_rows_all_null)

lemma getDatabaseSize_main_cases:
  "fst (getDatabaseSize_main opt db tr) = tr @ [Open (dsn opt (dbName opt))] \<or>
   fst (getDatabaseSize_main opt db tr) =
     tr @ [Open (dsn opt (dbName opt)), Query (select_size opt)]"
  by (auto simp: getDatabaseSize_main_def getClient_def split: option.splits sum.splits)

lemma getDatabaseSize_main_no_refresh:
  "Query (check_tables opt) \<notin> set (drop (length tr) (fst (getDatabaseSize_main opt db tr))) \<and>
   Query (analyze_tables opt) \<notin> set (drop (length tr) (fst (getDatabaseSize_main opt db tr)))"
  using getDatabaseSize_main_cases [of opt db tr] select_is_no_refresh [of opt opt]
  by (elim disjE) auto

lemma getDatabaseSize_main_zero:
  assumes "open_err db tr (dsn opt (dbName opt)) = None"
    and "query_res db (tr @ [Open (dsn opt (dbName opt))]) (select_size opt) = Inr rows"
    and "list_all (\<lambda>r. snd r = None) rows"
  shows "snd (getDatabaseSize_main opt db tr) = Inr 0"
  using assms by (simp add: getDatabaseSize_main_def getClient_def scan_rows_all_null)

text \<open>
  Claim C3, as the code has it. In the worker-pool variant every call of
  \<^verbatim>\<open>getDatabaseSize\<close> sends \<^verbatim>\<open>CHECK TABLE\<close> and then \<^verbatim>\<open>ANALYZE TABLE\<close> for the configured
  tables before the size query: when the size query is sent, and so whenever a size is
  returned, the three queries were sent in this order and the two refreshing ones had
  succeeded. The probe of \<^verbatim>\<open>src/main.go\<close> sends the size query alone, with no refresh.
  Both return 0 and no error when the size query yields no row or only NULL sizes.
\<close>

theorem probe_refreshes_in_pool_variant_only:
  "(Query (select_size opt) \<in> set (drop (length tr) (fst (getDatabaseSize_pool opt db tr))) \<longrightarrow>
      fst (getDatabaseSize_pool opt db tr) =
        tr @ [Query (check_tables opt), Query (analyze_tables opt), Query (select_size opt)] \<and>
      (\<exists>c. query_res db tr (check_tables opt) = Inr c) \<and>
      (\<exists>a. query_res db (tr @ [Query (check_tables opt)]) (analyze_tables opt) = Inr a)) \<and>
   (snd (getDatabaseSize_pool opt db tr) = Inr n \<longrightarrow>
      fst (getDatabaseSize_pool opt db tr) =
        tr @ [Query (check_tables opt), Query (analyze_tables opt), Query (select_size opt)]) \<and>
   (query_res db tr (check_tables opt) = Inr c \<and>
    query_res db (tr @ [Query (check_tables opt)]) (analyze_tables opt) = Inr a \<and>
    query_res db (tr @ [Query (check_tables opt), Query (analyze_tables opt)])
      (select_size opt) = Inr rows \<and>
    list_all (\<lambda>r. snd r = None) rows \<longrightarrow>
      snd (getDatabaseSize_pool opt db tr) = Inr 0) \<and>
   Query (check_tables opt) \<notin> set (drop (length tr) (fst (getDatabaseSize_main opt db tr))) \<and>
   Query (analyze_tables opt) \<notin> set (drop (length tr) (fst (getDatabaseSize_main opt db tr))) \<and>
   (open_err db tr (dsn opt (dbName opt)) = None \<and>
    query_res db (tr @ [Open (dsn opt (dbName opt))]) (select_size opt) = Inr rows \<and>
    list_all (\<lambda>r. snd r = None) rows \<longrightarrow>
      snd (getDatabaseSize_main opt db tr) = Inr 0)"
proof (intro conjI impI)
  assume "Query (select_size opt) \<in> set (drop (length tr) (fst (getDatabaseSize_pool opt db tr)))"
  from getDatabaseSize_pool_select [OF this]
  show "fst (getDatabaseSize_pool opt db tr) =
        tr @ [Query (check_tables opt), Query (analyze_tables opt), Query (select_size opt)]"
    and "\<exists>c. query_res db tr (check_tables opt) = Inr c"
    and "\<exists>a. query_res db (tr @ [Query (check_tables opt)]) (analyze_tables opt) = Inr a"
    by blast+
next
  assume "snd (getDatabaseSize_pool opt db tr) = Inr n"
  then show "fst (getDatabaseSize_pool opt db tr) =
        tr @ [Query (check_tables opt), Query (analyze_tables opt), Query (select_size opt)]"
    by (rule getDatabaseSize_pool_value)
next
  assume "query_res db tr (check_tables opt) = Inr c \<and>
    query_res db (tr @ [Query (check_tables opt)]) (analyze_tables opt) = Inr a \<and>
    query_res db (tr @ [Query (check_tables opt), Query (analyze_tables opt)])
      (select_size opt) = Inr rows \<and>
    list_all (\<lambda>r. snd r = None) rows"
  then show "snd (getDatabaseSize_pool opt db tr) = Inr 0"
    using getDatabaseSize_pool_zero by blast
next
  show "Query (check_tables opt) \<notin> set (drop (length tr) (fst (getDatabaseSize_main opt db tr)))"
    and "Query (analyze_tables opt) \<notin> set (drop (length tr) (fst (getDatabaseSize_main opt db tr)))"
    using getDatabaseSize_main_no_refresh [of opt tr db] by blast+
next
  assume "open_err db tr (dsn opt (dbName opt)) = None \<and>
    query_res db (tr @ [Open (dsn opt (dbName opt))]) (select_size opt) = Inr rows \<and>
    list_all (\<lambda>r. snd r = None) rows"
  then show "snd (getDatabaseSize_main opt db tr) = Inr 0"
    using getDatabaseSize_main_zero by blast
qed

theorem probe_refreshes_in_pool_variant_only_witness:
  "fst (getDatabaseSize_pool default_options quiet_server []) =
     [Query ''CHECK TABLE table0;'', Query ''ANALYZE TABLE table0;'',
      Query (select_size default_options)] \<and>
   snd (getDatabaseSize_pool default_options quiet_server []) = Inr 16384 \<and>
   snd (getDatabaseSize_pool default_options fresh_server []) = Inr 0 \<and>
   snd (getDatabaseSize_main default_options fresh_server []) = Inr 0"
proof -
  note t = probe_refreshes_in_pool_variant_only
  have names: "check_tables default_options = ''CHECK TABLE table0;''"
    "analyze_tables default_options = ''ANALYZE TABLE table0;''"
    by (simp_all add: db_eval)
  have v: "snd (getDatabaseSize_pool default_options quiet_server []) = Inr 16384"
    by (simp add: getDatabaseSize_pool_def quiet_server_def size_eval)
  have sel: "Query (select_size default_options) \<in>
      set (drop (length []) (fst (getDatabaseSize_pool default_options quiet_server [])))"
    by (simp add: getDatabaseSize_pool_def quiet_server_def)
  from t [where opt = default_options and tr = "[]" and db = quiet_server,
      THEN conjunct1, rule_format, OF sel]
  have c1: "fst (getDatabaseSize_pool default_options quiet_server []) =
      [Query ''CHECK TABLE table0;'', Query ''ANALYZE TABLE table0;'',
       Query (select_size default_options)]"
    by (simp add: names)
  from t [where opt = default_options and tr = "[]" and db = quiet_server and n = 16384,
      THEN conjunct2, THEN conjunct1, rule_format, OF v]
  have c2: "fst (getDatabaseSize_pool default_options quiet_server []) =
      [] @ [Query (check_tables default_options), Query (analyze_tables default_options),
       Query (select_size default_options)]" .
  have q: "query_res fresh_server [] (check_tables default_options) = Inr [(None, None)] \<and>
      query_res fresh_server ([] @ [Query (check_tables default_options)])
        (analyze_tables default_options) = Inr [(None, None)] \<and>
      query_res fresh_server
        ([] @ [Query (check_tables default_options), Query (analyze_tables default_options)])
        (select_size default_options) = Inr [(None, None)] \<and>
      list_all (\<lambda>r. snd r = None) [(None :: string option, None :: string option)]"
    by (simp add: fresh_server_def)
  from t [where opt = default_options and tr = "[]" and db = fresh_server
        and c = "[(None, None)]" and a = "[(None, None)]" and rows = "[(None, None)]",
      THEN conjunct2, THEN conjunct2, THEN conjunct1, rule_format, OF q]
  have c3: "snd (getDatabaseSize_pool default_options fresh_server []) = Inr 0" .
  have q': "open_err fresh_server [] (dsn default_options (dbName default_options)) = None \<and>
      query_res fresh_server ([] @ [Open (dsn default_options (dbName default_options))])
        (select_size default_options) = Inr [(None, None)] \<and>
      list_all (\<lambda>r. snd r = None) [(None :: string option, None :: string option)]"
    by (simp add: fresh_server_def)
  from t [where opt = default_options and tr = "[]" and db = fresh_server
        and rows = "[(None, None)]",
      THEN conjunct2, THEN conjunct2, THEN conjunct2, THEN conjunct2, THEN conjunct2,
      rule_format, OF q']
  have c4: "snd (getDatabaseSize_main default_options fresh_server []) = Inr 0" .
  from c1 v c3 c4 show ?thesis by simp
qed

text \<open>
  The claim as stated fails on \<^verbatim>\<open>src/main.go\<close>: against a server that reports 16384
  bytes its probe opens a handle and sends the size query, reads 16384, and has sent
  neither \<^verbatim>\<open>CHECK TABLE\<close> nor \<^verbatim>\<open>ANALYZE TABLE\<close>.
\<close>

theorem main_probe_without_refresh_counterexample:
  "getDatabaseSize_main default_options quiet_server [] =
     ([Open ''root:admin123@tcp(localhost:3306)/demodata'',
       Query (select_size default_options)], Inr 16384) \<and>
   Query (check_tables default_options) \<notin>
     set (fst (getDatabaseSize_main default_options quiet_server [])) \<and>
   Query (analyze_tables default_options) \<notin>
     set (fst (getDatabaseSize_main default_options quiet_server []))"
proof -
  have "getDatabaseSize_main default_options quiet_server [] =
     ([Open ''root:admin123@tcp(localhost:3306)/demodata'',
       Query (select_size default_options)], Inr 16384)"
    by (simp add: getDatabaseSize_main_def getClient_def dsn_def show_int_def show_nat.simps
        digit_char_def default_options_def quiet_server_def size_eval)
  then show ?thesis using select_is_no_refresh [of default_options default_options] by auto
qed

subsection \<open>Provisioning comes before \<^verbatim>\<open>parseSize\<close>\<close>


lemma is_provisioning_simps:
  "is_provisioning (Open d)" "is_provisioning Ping"
  "is_provisioning (Exec (''CREATE DATABASE '' @ x))"
  "is_provisioning (Exec (''DROP DATABASE IF EXISTS '' @ x))"
  "is_provisioning (Exec (create_table_stmt t))"
  "\<not> is_provisioning (Query q)"
  by (simp_all add: is_provisioning_def has_prefix_def create_table_stmt_def)

















subsection \<open>The summary's division\<close>

lemma whole_seconds_below_one: "0 \<le> d \<Longrightarrow> d < 1000000000 \<Longrightarrow> whole_seconds d = 0"
  by (simp add: whole_seconds_def quot_def)

lemma speedLine_below_one_second:
  "0 \<le> d \<Longrightarrow> d < 1000000000 \<Longrightarrow> speedLine curSize initialSize d = Inl PanicDivideByZero"
  by (simp add: speedLine_def whole_seconds_below_one)

lemma speedLine_from_one_second:
  assumes "1000000000 \<le> d"
  shows "\<exists>line. speedLine curSize initialSize d = Inr line"
proof -
  from assms have "1 \<le> d div 1000000000" by simp
  with assms have "whole_seconds d \<noteq> 0" by (simp add: whole_seconds_def quot_def)
  then show ?thesis by (simp add: speedLine_def Let_def)
qed

text \<open>
  Claim C4 does not hold of the code: the divisor \<^verbatim>\<open>int(totalTime.Seconds())\<close> is used
  unchecked. In the row-per-worker variant the size \<^verbatim>\<open>1KB\<close> with one table plans no row
  at all (1024 / 1048576 = 0), so a run against a nearby server ends within a second; with
  0.4 s elapsed the divisor is 0 and printing the speed panics.
\<close>

theorem summary_speed_divides_by_zero:
  "parseSize ''1KB'' = Inr 1024 \<and> totalRows 1024 1 = Inr 0 \<and>
   whole_seconds 400000000 = 0 \<and>
   speedLine 16384 16384 400000000 = Inl PanicDivideByZero"
  by (simp add: size_eval totalRows_def quot_def whole_seconds_def speedLine_def)

subsection \<open>What a worker prints\<close>

lemma spawned_worker_prints_nothing: "snd (snd (spawned_worker tableName insertRow)) = []"
  by (simp add: spawned_worker_def worker_def split: prod.splits)

lemma worker_prints_captured_err:
  "snd (snd (worker (Some reason) tableName insertRow)) =
     [''Failed to insert a row in table: '' @ quoted tableName @ ''. Reason: '' @ reason @ ''.'']"
  by (simp add: worker_def split: prod.splits)

lemma insertRows_prints_every_failure: "length (fst (insertRows passes)) = failures passes"
  by (induction passes rule: insertRows.induct) (auto split: prod.splits)

lemma insertRows_returns_when_done: "CtxDone \<in> set passes \<Longrightarrow> snd (insertRows passes)"
  by (induction passes rule: insertRows.induct) (auto split: prod.splits)

lemma duplicate_is_not_too_many:
  "\<not> too_many_connections (Some ''Error 1062: Duplicate entry'')"
  "too_many_connections (Some ''Error 1040: Too many connections'')"
  "\<not> too_many_connections None"
  by (simp_all add: too_many_connections_def has_prefix_def)

text \<open>
  Claim C9 does not hold of the row-per-worker variant. Its worker means to print a failed
  insert, but the \<^verbatim>\<open>err\<close> it tests after the loop is not the loop's: it is the variable of
  \<^verbatim>\<open>generateData\<close>, which is \<^verbatim>\<open>nil\<close> while workers run. An insert that fails with a
  duplicate-key error is tried once, not retried, and nothing is printed. (The worker of
  the pool variant prints each failure and goes on: \<open>insertRows_prints_every_failure\<close>.)
\<close>

theorem failed_insert_is_not_printed:
  "spawned_worker ''table1'' (\<lambda>k. Some ''Error 1062: Duplicate entry'') = (1, 0, [])"
proof -
  have "insertWithRetry (\<lambda>k. Some ''Error 1062: Duplicate entry'') 0 0 None =
      (0 + 1, 0, Some ''Error 1062: Duplicate entry'')"
    by (rule insertWithRetry_stop) (simp_all add: duplicate_is_not_too_many)
  then show ?thesis by (simp add: spawned_worker_def worker_def)
qed

text \<open>
  Claim C2. For the insert a worker of the row-per-worker variant performs: at most 100
  calls of \<^verbatim>\<open>insertRow\<close> are made; as long as calls fail with "Too many connections" the
  worker sleeps 5 seconds after each and calls again; the first call that succeeds or
  fails with any other error ends the loop, so such a call is not retried, and after \<open>j\<close>
  failures of the first kind the worker has slept \<open>5 j\<close> seconds and made \<open>j + 1\<close>
  calls; and after 100 such failures it gives up. The worker returns in every case. In
  particular 99 failures followed by a success on the 100th call end in success.
\<close>

theorem retries_only_too_many_connections:
  "fst (insertWithRetry insertRow 0 0 None) \<le> 100 \<and>
   (j < 100 \<and> (\<forall>k<j. too_many_connections (insertRow k)) \<and>
      \<not> too_many_connections (insertRow j) \<longrightarrow>
      insertWithRetry insertRow 0 0 None = (j + 1, 5 * j, insertRow j) \<and>
      (\<exists>printed. spawned_worker tableName insertRow = (j + 1, 5 * j, printed))) \<and>
   ((\<forall>k<100. too_many_connections (insertRow k)) \<longrightarrow>
      insertWithRetry insertRow 0 0 None = (100, 500, insertRow 99) \<and>
      (\<exists>printed. spawned_worker tableName insertRow = (100, 500, printed)))"
proof (intro conjI impI)
  show "fst (insertWithRetry insertRow 0 0 None) \<le> 100"
    by (rule insertWithRetry_calls_bound) simp
next
  assume a: "j < 100 \<and> (\<forall>k<j. too_many_connections (insertRow k)) \<and>
      \<not> too_many_connections (insertRow j)"
  then have "insertWithRetry insertRow 0 0 None = (j + 1, 0 + 5 * (j - 0), insertRow j)"
    by (intro insertWithRetry_run) simp_all
  then show r: "insertWithRetry insertRow 0 0 None = (j + 1, 5 * j, insertRow j)" by simp
  then show "\<exists>printed. spawned_worker tableName insertRow = (j + 1, 5 * j, printed)"
    by (simp add: spawned_worker_def worker_def)
next
  assume a: "\<forall>k<100. too_many_connections (insertRow k)"
  then have "insertWithRetry insertRow 0 0 None = (100, 0 + 5 * (100 - 0), insertRow 99)"
    by (intro insertWithRetry_give_up) simp_all
  then show r: "insertWithRetry insertRow 0 0 None = (100, 500, insertRow 99)" by simp
  then show "\<exists>printed. spawned_worker tableName insertRow = (100, 500, printed)"
    by (simp add: spawned_worker_def worker_def)
qed

theorem retries_only_too_many_connections_witness:
  "insertWithRetry (\<lambda>k. if k < 99 then Some ''Error 1040: Too many connections'' else None)
     0 0 None = (100, 495, None) \<and>
   insertWithRetry (\<lambda>k. Some ''Error 1062: Duplicate entry'') 0 0 None =
     (1, 0, Some ''Error 1062: Duplicate entry'') \<and>
   insertWithRetry (\<lambda>k. Some ''Error 1040: Too many connections'') 0 0 None =
     (100, 500, Some ''Error 1040: Too many connections'')"
proof -
  note t = retries_only_too_many_connections
  let ?d = "\<lambda>k::nat. if k < 99 then Some ''Error 1040: Too many connections'' else None"
  have d: "99 < (100::nat) \<and> (\<forall>k<99. too_many_connections (?d k)) \<and>
      \<not> too_many_connections (?d 99)"
    by (simp add: duplicate_is_not_too_many)
  from t [where insertRow = ?d and j = 99 and tableName = "''table1''",
      THEN conjunct2, THEN conjunct1, rule_format, OF d, THEN conjunct1]
  have c1: "insertWithRetry ?d 0 0 None = (100, 495, None)" by simp
  let ?o = "\<lambda>k::nat. Some ''Error 1062: Duplicate entry''"
  have o: "0 < (100::nat) \<and> (\<forall>k<0. too_many_connections (?o k)) \<and>
      \<not> too_many_connections (?o 0)"
    by (simp add: duplicate_is_not_too_many)
  from t [where insertRow = ?o and j = 0 and tableName = "''table1''",
      THEN conjunct2, THEN conjunct1, rule_format, OF o, THEN conjunct1]
  have c2: "insertWithRetry ?o 0 0 None = (1, 0, Some ''Error 1062: Duplicate entry'')"
    by simp
  let ?g = "\<lambda>k::nat. Some ''Error 1040: Too many connections''"
  have g: "\<forall>k<100. too_many_connections (?g k)"
    by (simp add: duplicate_is_not_too_many)
  from t [where insertRow = ?g and tableName = "''table1''",
      THEN conjunct2, THEN conjunct2, THEN mp, OF g, THEN conjunct1]
  have c3: "insertWithRetry ?g 0 0 None =
      (100, 500, Some ''Error 1040: Too many connections'')" .
  from c1 c2 c3 show ?thesis by simp
qed

subsection \<open>The bound on concurrent inserts\<close>

lemma filter_update_count:
  "i < length xs \<Longrightarrow>
   length (filter P (xs[i := v])) + (if P (xs ! i) then 1 else 0) =
   length (filter P xs) + (if P v then 1 else 0)"
proof (induction xs arbitrary: i)
  case Nil
  then show ?case by simp
next
  case (Cons x xs)
  show ?case
  proof (cases i)
    case 0
    then show ?thesis by simp
  next
    case (Suc j)
    with Cons.prems have "j < length xs" by simp
    from Cons.IH [OF this] Suc show ?thesis by simp
  qed
qed

lemma filter_count_mono:
  "(\<And>x. P x \<Longrightarrow> Q x) \<Longrightarrow> length (filter P xs) \<le> length (filter Q xs)"
  by (induction xs) auto

lemma seats_keep:
  assumes "i < length (tasks s)" "holds_seat (tasks s ! i)" "holds_seat v"
  shows "seats (s\<lparr>tasks := (tasks s)[i := v]\<rparr>) = seats s"
  using filter_update_count [of i "tasks s" holds_seat v] assms by (simp add: seats_def)

lemma sem_step_seats:
  assumes "sem_step C n_rows s s'" "seats s = limiter s" "limiter s \<le> C"
  shows "seats s' = limiter s' \<and> limiter s' \<le> C"
  using assms
proof (cases rule: sem_step.cases)
  case acquire
  with assms show ?thesis by (simp add: seats_def)
next
  case spawn
  with assms show ?thesis by (simp add: seats_def)
next
  case loop_end
  with assms show ?thesis by (simp add: seats_def)
next
  case (first_call i)
  with assms seats_keep [of i s "Inserting 0"] show ?thesis by simp
next
  case (call_too_many_connections i t)
  with assms seats_keep [of i s "Sleeping t"] show ?thesis by simp
next
  case (call_returns i t)
  with assms seats_keep [of i s Release] show ?thesis by simp
next
  case (next_call i t)
  with assms seats_keep [of i s "Inserting (t + 1)"] show ?thesis by simp
next
  case (give_up i t)
  with assms seats_keep [of i s Release] show ?thesis by simp
next
  case (release i)
  from filter_update_count [of i "tasks s" holds_seat Finished] release
  have "length (filter holds_seat ((tasks s)[i := Finished])) + 1 =
      length (filter holds_seat (tasks s))"
    by simp
  with release have "seats s' + 1 = seats s" by (simp add: seats_def)
  moreover from release have "limiter s' = limiter s - 1" by simp
  ultimately show ?thesis using assms(2,3) by linarith
qed

lemma sem_reachable_seats:
  "sem_reachable C n_rows s \<Longrightarrow> seats s = limiter s \<and> limiter s \<le> C"
proof (induction rule: sem_reachable.induct)
  case start
  show ?case by (simp add: seats_def sem_init_def)
next
  case (step s s')
  then show ?case using sem_step_seats by blast
qed

lemma sem_in_flight_le_seats: "sem_in_flight s \<le> seats s"
proof -
  have "length (filter is_inserting (tasks s)) \<le> length (filter holds_seat (tasks s))"
  proof (rule filter_count_mono)
    fix x show "is_inserting x \<Longrightarrow> holds_seat x" by (cases x) simp_all
  qed
  then show ?thesis by (simp add: sem_in_flight_def seats_def)
qed

lemma sem_bound: "sem_reachable C n_rows s \<Longrightarrow> sem_in_flight s \<le> C \<and> limiter s \<le> C"
  using sem_reachable_seats [of C n_rows s] sem_in_flight_le_seats [of s] by simp

lemma pool_step_workers:
  assumes "pool_step C s s'"
    and "length (pool_tasks s) = started s" "started s \<le> C" "\<not> spawning s \<longrightarrow> started s = C"
  shows "length (pool_tasks s') = started s' \<and> started s' \<le> C \<and>
         (\<not> spawning s' \<longrightarrow> started s' = C)"
  using assms by (cases rule: pool_step.cases) auto

lemma pool_reachable_workers:
  "pool_reachable C s \<Longrightarrow>
   length (pool_tasks s) = started s \<and> started s \<le> C \<and> (\<not> spawning s \<longrightarrow> started s = C)"
proof (induction rule: pool_reachable.induct)
  case pool_start
  show ?case by (simp add: pool_init_def)
next
  case (pool_next s s')
  then show ?case using pool_step_workers [of C s s'] by blast
qed

lemma pool_bound:
  assumes "pool_reachable C s"
  shows "pool_in_flight s \<le> C \<and> length (pool_tasks s) \<le> C \<and>
         (\<not> spawning s \<longrightarrow> length (pool_tasks s) = C)"
proof -
  have "pool_in_flight s \<le> length (pool_tasks s)" by (simp add: pool_in_flight_def)
  with pool_reachable_workers [OF assms] show ?thesis by simp
qed

text \<open>
  Claim C1. For every concurrency \<open>C \<ge> 1\<close> and in every state a run can reach, the number
  of workers inside an insert is at most \<open>C\<close>. In the semaphore variant the channel never
  holds more than \<open>C\<close> values, and it holds exactly one value for each worker that has
  not yet received from it (and one for the worker about to be started): a value is sent
  before each worker starts and received only after its insert. In the worker-pool
  variant at most \<open>C\<close> workers exist at any moment, and exactly \<open>C\<close> once the main
  routine has left its loop.
\<close>

theorem in_flight_inserts_bounded:
  "1 \<le> C \<Longrightarrow>
   (sem_reachable C n_rows s \<longrightarrow>
      sem_in_flight s \<le> C \<and> sem_in_flight s \<le> seats s \<and> seats s = limiter s \<and>
      limiter s \<le> C) \<and>
   (pool_reachable C p \<longrightarrow>
      pool_in_flight p \<le> C \<and> length (pool_tasks p) \<le> C \<and>
      (\<not> spawning p \<longrightarrow> length (pool_tasks p) = C))"
  using sem_bound [of C n_rows s] sem_reachable_seats [of C n_rows s]
    sem_in_flight_le_seats [of s] pool_bound [of C p]
  by blast

lemma sem_example_run:
  "sem_reachable 1 2 \<lparr> rows_started = 1, limiter = 1, main_at = Acquire, tasks = [Inserting 0] \<rparr>"
proof -
  have r0: "sem_reachable 1 2 \<lparr> rows_started = 0, limiter = 0, main_at = Acquire, tasks = [] \<rparr>"
    using sem_reachable.start [of 1 2] by (simp add: sem_init_def)
  have "sem_step 1 2 \<lparr> rows_started = 0, limiter = 0, main_at = Acquire, tasks = [] \<rparr>
      (\<lparr> rows_started = 0, limiter = 0, main_at = Acquire, tasks = [] \<rparr>
        \<lparr>limiter := limiter \<lparr> rows_started = 0, limiter = 0, main_at = Acquire, tasks = [] \<rparr> + 1,
         main_at := Spawn\<rparr>)"
    by (rule sem_step.acquire) simp_all
  with r0 have r1:
    "sem_reachable 1 2 \<lparr> rows_started = 0, limiter = 1, main_at = Spawn, tasks = [] \<rparr>"
    using sem_reachable.step by fastforce
  have "sem_step 1 2 \<lparr> rows_started = 0, limiter = 1, main_at = Spawn, tasks = [] \<rparr>
      (\<lparr> rows_started = 0, limiter = 1, main_at = Spawn, tasks = [] \<rparr>
        \<lparr>tasks := tasks \<lparr> rows_started = 0, limiter = 1, main_at = Spawn, tasks = [] \<rparr> @ [Start],
         rows_started :=
           rows_started \<lparr> rows_started = 0, limiter = 1, main_at = Spawn, tasks = [] \<rparr> + 1,
         main_at := Acquire\<rparr>)"
    by (rule sem_step.spawn) simp
  with r1 have r2:
    "sem_reachable 1 2 \<lparr> rows_started = 1, limiter = 1, main_at = Acquire, tasks = [Start] \<rparr>"
    using sem_reachable.step by fastforce
  have "sem_step 1 2 \<lparr> rows_started = 1, limiter = 1, main_at = Acquire, tasks = [Start] \<rparr>
      (\<lparr> rows_started = 1, limiter = 1, main_at = Acquire, tasks = [Start] \<rparr>
        \<lparr>tasks :=
           (tasks \<lparr> rows_started = 1, limiter = 1, main_at = Acquire, tasks = [Start] \<rparr>)
             [0 := Inserting 0]\<rparr>)"
    by (rule sem_step.first_call) simp_all
  with r2 show ?thesis using sem_reachable.step by fastforce
qed

lemma pool_example_run:
  "pool_reachable 1 \<lparr> started = 1, spawning = False, cancelled = False, pool_tasks = [Executing] \<rparr>"
proof -
  have r0: "pool_reachable 1 \<lparr> started = 0, spawning = True, cancelled = False, pool_tasks = [] \<rparr>"
    using pool_reachable.pool_start [of 1] by (simp add: pool_init_def)
  have "pool_step 1 \<lparr> started = 0, spawning = True, cancelled = False, pool_tasks = [] \<rparr>
      (\<lparr> started = 0, spawning = True, cancelled = False, pool_tasks = [] \<rparr>
        \<lparr>started := started \<lparr> started = 0, spawning = True, cancelled = False, pool_tasks = [] \<rparr> + 1,
         pool_tasks :=
           pool_tasks \<lparr> started = 0, spawning = True, cancelled = False, pool_tasks = [] \<rparr> @
           [Select]\<rparr>)"
    by (rule pool_step.go_worker) simp_all
  with r0 have r1:
    "pool_reachable 1 \<lparr> started = 1, spawning = True, cancelled = False, pool_tasks = [Select] \<rparr>"
    using pool_reachable.pool_next by fastforce
  have "pool_step 1 \<lparr> started = 1, spawning = True, cancelled = False, pool_tasks = [Select] \<rparr>
      (\<lparr> started = 1, spawning = True, cancelled = False, pool_tasks = [Select] \<rparr>
        \<lparr>spawning := False\<rparr>)"
    by (rule pool_step.go_monitor) simp_all
  with r1 have r2:
    "pool_reachable 1 \<lparr> started = 1, spawning = False, cancelled = False, pool_tasks = [Select] \<rparr>"
    using pool_reachable.pool_next by fastforce
  have "pool_step 1 \<lparr> started = 1, spawning = False, cancelled = False, pool_tasks = [Select] \<rparr>
      (\<lparr> started = 1, spawning = False, cancelled = False, pool_tasks = [Select] \<rparr>
        \<lparr>pool_tasks :=
           (pool_tasks \<lparr> started = 1, spawning = False, cancelled = False, pool_tasks = [Select] \<rparr>)
             [0 := Executing]\<rparr>)"
    by (rule pool_step.select_default) simp_all
  with r2 show ?thesis using pool_reachable.pool_next by fastforce
qed

theorem in_flight_inserts_bounded_witness:
  "sem_reachable 1 2 \<lparr> rows_started = 1, limiter = 1, main_at = Acquire, tasks = [Inserting 0] \<rparr> \<and>
   sem_in_flight \<lparr> rows_started = 1, limiter = 1, main_at = Acquire, tasks = [Inserting 0] \<rparr> \<le> 1 \<and>
   sem_in_flight \<lparr> rows_started = 1, limiter = 1, main_at = Acquire, tasks = [Inserting 0] \<rparr> = 1 \<and>
   pool_reachable 1
     \<lparr> started = 1, spawning = False, cancelled = False, pool_tasks = [Executing] \<rparr> \<and>
   pool_in_flight
     \<lparr> started = 1, spawning = False, cancelled = False, pool_tasks = [Executing] \<rparr> \<le> 1 \<and>
   pool_in_flight
     \<lparr> started = 1, spawning = False, cancelled = False, pool_tasks = [Executing] \<rparr> = 1"
proof -
  let ?s = "\<lparr> rows_started = 1, limiter = 1, main_at = Acquire, tasks = [Inserting 0] \<rparr>"
  let ?p = "\<lparr> started = 1, spawning = False, cancelled = False, pool_tasks = [Executing] \<rparr>"
  have one: "(1::nat) \<le> 1" by simp
  note t = in_flight_inserts_bounded [OF one, where n_rows = 2 and s = ?s and p = ?p]
  note a = t [THEN conjunct1, rule_format, OF sem_example_run, THEN conjunct1]
  note b = t [THEN conjunct2, rule_format, OF pool_example_run, THEN conjunct1]
  have c: "sem_in_flight ?s = 1" by (simp add: sem_in_flight_def)
  have d: "pool_in_flight ?p = 1" by (simp add: pool_in_flight_def)
  show ?thesis
    by (rule conjI [OF sem_example_run conjI [OF a conjI [OF c
          conjI [OF pool_example_run conjI [OF b d]]]]])
qed

end
